theory Spec2Isabelle
  imports Main
begin

section \<open>Objects of the file system\<close>

text \<open>
  The Python program keeps \<open>File\<close> and \<open>Directory\<close> objects on the heap and links them by
  reference: a directory's \<open>children\<close> dictionary holds references to its entries, every
  directory holds a reference to its \<open>parent\<close>, and the \<open>FileSystem\<close> holds references to
  its \<open>root\<close> and its \<open>current_directory\<close>. The model therefore uses an explicit store.
  An address is a natural number. A reference found in a \<open>children\<close> dictionary carries
  the class of the object it points to (\<open>isinstance\<close> in the source; the class of an
  object never changes), and each class has its own store.

  The classes \<open>File\<close> and \<open>Directory\<close> both have the fields \<open>name\<close> and
  \<open>owner\<close>; the record \<open>Entry\<close> holds these two, so that both records keep the
  source's field names. \<open>size_f\<close> is the field \<open>size\<close> of \<open>File\<close>.

  The timestamps \<open>created_at\<close> and \<open>modified_at\<close> read the wall clock
  (\<open>datetime.now()\<close>); no operation ever tests them and they are left out. So are
  the methods that only render the state for display (\<open>get_info\<close>,
  \<open>list_contents\<close>, \<open>list_directory\<close>, \<open>get_prompt\<close>, \<open>list_users\<close>).
\<close>

type_synonym addr = nat

datatype item = FileRef addr | DirRef addr

record Entry =
  name :: string
  owner :: string

record File = Entry +
  content :: string
  size_f :: nat

record Directory = Entry +
  parent :: "addr option"
  children :: "string \<rightharpoonup> item"

text \<open>
  An object handed to \<open>add_file\<close> or \<open>add_directory\<close> is either one that a constructor
  has just built and that nothing refers to yet (\<open>New\<close>), or one that already lives in the
  store (\<open>At\<close>). A new object receives its address when a directory takes it in.
\<close>

datatype 'a obj = New 'a | At addr

record FileSystem =
  files :: "addr \<Rightarrow> File"
  dirs :: "addr \<Rightarrow> Directory"
  next_addr :: addr
  root :: addr
  current_directory :: addr

text \<open>Python's \<open>'{x}'\<close> inside an f-string.\<close>

abbreviation quoted :: "string \<Rightarrow> string" where
  "quoted x \<equiv> CHR 0x27 # x @ [CHR 0x27]"

subsection \<open>class File\<close>

definition File_init :: "string \<Rightarrow> string \<Rightarrow> string \<Rightarrow> File" where
  "File_init nm c ow = \<lparr>name = nm, owner = ow, content = c, size_f = length c\<rparr>"

definition file_read :: "File \<Rightarrow> string" where
  "file_read f = content f"

definition file_write :: "File \<Rightarrow> string \<Rightarrow> File" where
  "file_write f c = f\<lparr>content := c, size_f := length c\<rparr>"

definition file_append :: "File \<Rightarrow> string \<Rightarrow> File" where
  "file_append f c =
     (let f1 = f\<lparr>content := content f @ c\<rparr> in f1\<lparr>size_f := length (content f1)\<rparr>)"

subsection \<open>class Directory\<close>

definition Directory_init :: "string \<Rightarrow> string \<Rightarrow> addr option \<Rightarrow> Directory" where
  "Directory_init nm ow p = \<lparr>name = nm, owner = ow, parent = p, children = Map.empty\<rparr>"

text \<open>What an address holds before anything has been placed there.\<close>

definition blank_file :: File where
  "blank_file = File_init [] [] []"

definition blank_dir :: Directory where
  "blank_dir = Directory_init [] [] None"

definition the_file :: "FileSystem \<Rightarrow> File obj \<Rightarrow> File" where
  "the_file s fo = (case fo of New f \<Rightarrow> f | At a \<Rightarrow> files s a)"

definition the_dir :: "FileSystem \<Rightarrow> Directory obj \<Rightarrow> Directory" where
  "the_dir s d = (case d of New d' \<Rightarrow> d' | At a \<Rightarrow> dirs s a)"

definition place_file :: "FileSystem \<Rightarrow> File obj \<Rightarrow> addr \<times> FileSystem" where
  "place_file s fo =
     (case fo of
        At a \<Rightarrow> (a, s)
      | New f \<Rightarrow>
          (next_addr s,
           s\<lparr>files := (files s)(next_addr s := f), next_addr := Suc (next_addr s)\<rparr>))"

definition place_dir :: "FileSystem \<Rightarrow> Directory obj \<Rightarrow> addr \<times> FileSystem" where
  "place_dir s d =
     (case d of
        At a \<Rightarrow> (a, s)
      | New d' \<Rightarrow>
          (next_addr s,
           s\<lparr>dirs := (dirs s)(next_addr s := d'), next_addr := Suc (next_addr s)\<rparr>))"

text \<open>\<open>self.children[k] = v\<close> on the directory at \<open>self\<close>.\<close>

definition set_child :: "FileSystem \<Rightarrow> addr \<Rightarrow> string \<Rightarrow> item \<Rightarrow> FileSystem" where
  "set_child s self k v =
     s\<lparr>dirs := (dirs s)(self := (dirs s self)\<lparr>children := (children (dirs s self))(k \<mapsto> v)\<rparr>)\<rparr>"

definition add_file :: "FileSystem \<Rightarrow> addr \<Rightarrow> File obj \<Rightarrow> bool \<times> FileSystem" where
  "add_file s self file =
     (if name (the_file s file) \<in> dom (children (dirs s self)) then (False, s)
      else let (a, s1) = place_file s file
           in (True, set_child s1 self (name (files s1 a)) (FileRef a)))"

definition add_directory :: "FileSystem \<Rightarrow> addr \<Rightarrow> Directory obj \<Rightarrow> bool \<times> FileSystem" where
  "add_directory s self directory =
     (if name (the_dir s directory) \<in> dom (children (dirs s self)) then (False, s)
      else let (a, s1) = place_dir s directory;
               s2 = set_child s1 self (name (dirs s1 a)) (DirRef a);
               s3 = s2\<lparr>dirs := (dirs s2)(a := (dirs s2 a)\<lparr>parent := Some self\<rparr>)\<rparr>
           in (True, s3))"

definition remove :: "FileSystem \<Rightarrow> addr \<Rightarrow> string \<Rightarrow> bool \<times> FileSystem" where
  "remove s self nm =
     (if nm \<in> dom (children (dirs s self))
      then (True,
            s\<lparr>dirs := (dirs s)(self := (dirs s self)\<lparr>children := (children (dirs s self))(nm := None)\<rparr>)\<rparr>)
      else (False, s))"

definition get :: "FileSystem \<Rightarrow> addr \<Rightarrow> string \<Rightarrow> item option" where
  "get s self nm = children (dirs s self) nm"

text \<open>
  \<open>get_path\<close> calls itself once for every level between the directory and the root.
  Python gives every call a frame and raises \<open>RecursionError\<close> when the recursion limit
  is reached; a climb that never ends (a directory that is its own ancestor) ends the same
  way. The model counts the frames: \<open>limit\<close> is the number of frames left for
  \<open>get_path\<close> when it is called, that is \<open>sys.getrecursionlimit()\<close> less the frames
  already on the stack, a little under 1000 with the interpreter's defaults.
\<close>

datatype error = RecursionError

fun get_path :: "nat \<Rightarrow> FileSystem \<Rightarrow> addr \<Rightarrow> error + string" where
  "get_path 0 s self = Inl RecursionError"
| "get_path (Suc limit) s self =
     (case parent (dirs s self) of
        None \<Rightarrow> Inr ''/''
      | Some p \<Rightarrow>
          (case get_path limit s p of
             Inl e \<Rightarrow> Inl e
           | Inr parent_path \<Rightarrow>
               Inr (if parent_path = ''/'' then ''/'' @ name (dirs s self)
                    else parent_path @ ''/'' @ name (dirs s self))))"

subsection \<open>class FileSystem\<close>

definition FileSystem_init :: "string \<Rightarrow> FileSystem" where
  "FileSystem_init ow =
     \<lparr>files = (\<lambda>_. blank_file),
      dirs = (\<lambda>_. blank_dir)(0 := Directory_init ''/'' ow None),
      next_addr = 1,
      root = 0,
      current_directory = 0\<rparr>"

definition get_current_path :: "nat \<Rightarrow> FileSystem \<Rightarrow> error + string" where
  "get_current_path limit s = get_path limit s (current_directory s)"

definition create_file ::
  "FileSystem \<Rightarrow> string \<Rightarrow> string \<Rightarrow> string \<Rightarrow> (bool \<times> string) \<times> FileSystem" where
  "create_file s nm ow c =
     (if nm \<in> dom (children (dirs s (current_directory s)))
      then ((False, ''File or directory '' @ quoted nm @ '' already exists''), s)
      else let file = New (File_init nm c ow);
               (ok, s') = add_file s (current_directory s) file
           in if ok then ((True, ''File '' @ quoted nm @ '' created successfully''), s')
              else ((False, ''Failed to create file''), s'))"

definition create_directory ::
  "FileSystem \<Rightarrow> string \<Rightarrow> string \<Rightarrow> (bool \<times> string) \<times> FileSystem" where
  "create_directory s nm ow =
     (if nm \<in> dom (children (dirs s (current_directory s)))
      then ((False, ''File or directory '' @ quoted nm @ '' already exists''), s)
      else if nm \<in> set [''.'', ''..'']
      then ((False, ''Invalid directory name''), s)
      else let directory = New (Directory_init nm ow (Some (current_directory s)));
               (ok, s') = add_directory s (current_directory s) directory
           in if ok then ((True, ''Directory '' @ quoted nm @ '' created successfully''), s')
              else ((False, ''Failed to create directory''), s'))"

text \<open>Python's \<open>str.strip(chars)\<close> and \<open>str.split(sep)\<close> for a separator of one character.\<close>

definition strip :: "string \<Rightarrow> string \<Rightarrow> string" where
  "strip chars x =
     rev (dropWhile (\<lambda>c. c \<in> set chars) (rev (dropWhile (\<lambda>c. c \<in> set chars) x)))"

fun split :: "char \<Rightarrow> string \<Rightarrow> string list" where
  "split sep [] = [[]]"
| "split sep (c # cs) =
     (if c = sep then [] # split sep cs
      else (case split sep cs of [] \<Rightarrow> [[c]] | w # ws \<Rightarrow> (c # w) # ws))"

text \<open>The loop of \<open>_navigate_absolute_path\<close>, from the entry reached so far.\<close>

fun walk :: "FileSystem \<Rightarrow> item \<Rightarrow> string list \<Rightarrow> item option" where
  "walk s current [] = Some current"
| "walk s current (part # parts) =
     (case current of
        FileRef _ \<Rightarrow> None
      | DirRef d \<Rightarrow>
          (case get s d part of
             None \<Rightarrow> None
           | Some it \<Rightarrow> walk s it parts))"

definition navigate_absolute_path :: "FileSystem \<Rightarrow> string \<Rightarrow> item option" where
  "navigate_absolute_path s path =
     (if path = ''/'' then Some (DirRef (root s))
      else walk s (DirRef (root s)) (split CHR ''/'' (strip ''/'' path)))"

text \<open>
  \<open>change_directory\<close> assigns \<open>current_directory\<close> before it builds the message of a
  successful change. Its result is what it returns, or the exception that
  \<open>get_current_path\<close> raises while the message is built, together with the state it
  leaves behind.
\<close>

definition changed_to :: "nat \<Rightarrow> FileSystem \<Rightarrow> (error + bool \<times> string) \<times> FileSystem" where
  "changed_to limit s' =
     (case get_current_path limit s' of
        Inl e \<Rightarrow> (Inl e, s')
      | Inr p \<Rightarrow> (Inr (True, ''Changed to '' @ p), s'))"

definition change_directory ::
  "nat \<Rightarrow> FileSystem \<Rightarrow> string \<Rightarrow> (error + bool \<times> string) \<times> FileSystem" where
  "change_directory limit s path =
     (if path = ''/''
      then (Inr (True, ''Changed to root directory''), s\<lparr>current_directory := root s\<rparr>)
      else if path = ''..''
      then (case parent (dirs s (current_directory s)) of
              Some p \<Rightarrow> changed_to limit (s\<lparr>current_directory := p\<rparr>)
            | None \<Rightarrow> (Inr (False, ''Already at root directory''), s))
      else if path = ''.''
      then (case get_current_path limit s of
              Inl e \<Rightarrow> (Inl e, s)
            | Inr p \<Rightarrow> (Inr (True, ''Current directory: '' @ p), s))
      else if take 1 path = ''/''
      then (case navigate_absolute_path s path of
              Some (DirRef target) \<Rightarrow> changed_to limit (s\<lparr>current_directory := target\<rparr>)
            | _ \<Rightarrow> (Inr (False, ''Directory '' @ quoted path @ '' not found''), s))
      else (case get s (current_directory s) path of
              Some (DirRef d) \<Rightarrow> changed_to limit (s\<lparr>current_directory := d\<rparr>)
            | _ \<Rightarrow> (Inr (False, ''Directory '' @ quoted path @ '' not found''), s)))"

definition read_file :: "FileSystem \<Rightarrow> string \<Rightarrow> bool \<times> string" where
  "read_file s nm =
     (case get s (current_directory s) nm of
        None \<Rightarrow> (False, ''File '' @ quoted nm @ '' not found'')
      | Some (DirRef _) \<Rightarrow> (False, quoted nm @ '' is a directory, not a file'')
      | Some (FileRef a) \<Rightarrow> (True, file_read (files s a)))"

definition write_file ::
  "FileSystem \<Rightarrow> string \<Rightarrow> string \<Rightarrow> string \<Rightarrow> (bool \<times> string) \<times> FileSystem" where
  "write_file s nm c ow =
     (case get s (current_directory s) nm of
        None \<Rightarrow> create_file s nm ow c
      | Some (DirRef _) \<Rightarrow> ((False, quoted nm @ '' is a directory, not a file''), s)
      | Some (FileRef a) \<Rightarrow>
          ((True, ''File '' @ quoted nm @ '' updated successfully''),
           s\<lparr>files := (files s)(a := file_write (files s a) c)\<rparr>))"

definition append_file ::
  "FileSystem \<Rightarrow> string \<Rightarrow> string \<Rightarrow> (bool \<times> string) \<times> FileSystem" where
  "append_file s nm c =
     (case get s (current_directory s) nm of
        None \<Rightarrow> ((False, ''File '' @ quoted nm @ '' not found''), s)
      | Some (DirRef _) \<Rightarrow> ((False, quoted nm @ '' is a directory, not a file''), s)
      | Some (FileRef a) \<Rightarrow>
          ((True, ''Content appended to '' @ quoted nm),
           s\<lparr>files := (files s)(a := file_append (files s a) c)\<rparr>))"

definition delete :: "FileSystem \<Rightarrow> string \<Rightarrow> (bool \<times> string) \<times> FileSystem" where
  "delete s nm =
     (case get s (current_directory s) nm of
        None \<Rightarrow> ((False, quoted nm @ '' not found''), s)
      | Some it \<Rightarrow>
          if (case it of DirRef d \<Rightarrow> dom (children (dirs s d)) \<noteq> {} | FileRef _ \<Rightarrow> False)
          then ((False, ''Directory '' @ quoted nm @ '' is not empty''), s)
          else let (ok, s') = remove s (current_directory s) nm
               in if ok then ((True, quoted nm @ '' deleted successfully''), s')
                  else ((False, ''Failed to delete '' @ quoted nm), s'))"

definition move :: "FileSystem \<Rightarrow> string \<Rightarrow> string \<Rightarrow> (bool \<times> string) \<times> FileSystem" where
  "move s source destination =
     (case get s (current_directory s) source of
        None \<Rightarrow> ((False, ''Source '' @ quoted source @ '' not found''), s)
      | Some source_item \<Rightarrow>
          (case get s (current_directory s) destination of
             None \<Rightarrow> ((False, ''Destination '' @ quoted destination @ '' not found''), s)
           | Some (FileRef _) \<Rightarrow>
               ((False, ''Destination '' @ quoted destination @ '' is not a directory''), s)
           | Some (DirRef dest) \<Rightarrow>
               if source \<in> dom (children (dirs s dest))
               then ((False, quoted source @ '' already exists in '' @ quoted destination), s)
               else let s1 = snd (remove s (current_directory s) source);
                        s2 = (case source_item of
                                FileRef a \<Rightarrow> snd (add_file s1 dest (At a))
                              | DirRef a \<Rightarrow> snd (add_directory s1 dest (At a)))
                    in ((True, ''Moved '' @ quoted source @ '' to '' @ quoted destination), s2)))"

definition copy_file ::
  "FileSystem \<Rightarrow> string \<Rightarrow> string \<Rightarrow> string \<Rightarrow> (bool \<times> string) \<times> FileSystem" where
  "copy_file s source destination ow =
     (case get s (current_directory s) source of
        None \<Rightarrow> ((False, ''Source file '' @ quoted source @ '' not found''), s)
      | Some (DirRef _) \<Rightarrow> ((False, quoted source @ '' is not a file''), s)
      | Some (FileRef a) \<Rightarrow>
          let new_file = New (File_init destination (content (files s a)) ow);
              (ok, s') = add_file s (current_directory s) new_file
          in if ok
             then ((True, ''File copied from '' @ quoted source @ '' to '' @ quoted destination), s')
             else ((False, ''File '' @ quoted destination @ '' already exists''), s'))"

subsection \<open>class User and class NetworkFileSystem\<close>

text \<open>
  \<open>current_user\<close> is a reference to one of the \<open>User\<close> objects that the \<open>users\<close>
  dictionary holds, so the \<open>User\<close> objects live in a store of their own and both fields
  hold addresses. Each user owns a \<open>FileSystem\<close> with its own objects.
\<close>

record User =
  username :: string
  lastname :: string
  file_system :: FileSystem
  logged_in :: bool

definition User_init :: "string \<Rightarrow> string \<Rightarrow> User" where
  "User_init un ln =
     \<lparr>username = un, lastname = ln, file_system = FileSystem_init un, logged_in = True\<rparr>"

record NetworkFileSystem =
  user_store :: "addr \<Rightarrow> User"
  next_user :: addr
  users :: "string \<rightharpoonup> addr"
  current_user :: "addr option"

definition NetworkFileSystem_init :: NetworkFileSystem where
  "NetworkFileSystem_init =
     \<lparr>user_store = (\<lambda>_. User_init [] []), next_user = 0, users = Map.empty,
      current_user = None\<rparr>"

definition create_user ::
  "NetworkFileSystem \<Rightarrow> string \<Rightarrow> string \<Rightarrow> (bool \<times> string) \<times> NetworkFileSystem" where
  "create_user n un ln =
     (if un \<in> dom (users n)
      then ((False, ''User '' @ quoted un @ '' already exists''), n)
      else ((True, ''User '' @ quoted un @ '' created successfully''),
            n\<lparr>user_store := (user_store n)(next_user n := User_init un ln),
              next_user := Suc (next_user n),
              users := (users n)(un \<mapsto> next_user n)\<rparr>))"

definition login ::
  "NetworkFileSystem \<Rightarrow> string \<Rightarrow> (bool \<times> string) \<times> NetworkFileSystem" where
  "login n un =
     (case users n un of
        None \<Rightarrow> ((False, ''User '' @ quoted un @ '' not found''), n)
      | Some a \<Rightarrow>
          let n1 = n\<lparr>current_user := Some a\<rparr>;
              n2 = n1\<lparr>user_store := (user_store n1)(a := (user_store n1 a)\<lparr>logged_in := True\<rparr>)\<rparr>
          in ((True, ''Welcome '' @ lastname (user_store n2 a) @ ''!''), n2))"

definition logout :: "NetworkFileSystem \<Rightarrow> (bool \<times> string) \<times> NetworkFileSystem" where
  "logout n =
     (case current_user n of
        Some a \<Rightarrow>
          let un = username (user_store n a);
              n1 = n\<lparr>user_store := (user_store n)(a := (user_store n a)\<lparr>logged_in := False\<rparr>)\<rparr>;
              n2 = n1\<lparr>current_user := None\<rparr>
          in ((True, ''User '' @ quoted un @ '' logged out''), n2)
      | None \<Rightarrow> ((False, ''No user logged in''), n))"

definition get_current_user :: "NetworkFileSystem \<Rightarrow> addr option" where
  "get_current_user n = current_user n"

section \<open>Shape of the store\<close>

text \<open>
  What every store built by the operations looks like. A directory held under a key is
  allocated, is not the root, carries that key as its name and names its holder as its
  parent; a file held under a key is allocated, carries that key as its name, and has one
  holder only; the root has no parent; parents are allocated.
\<close>

definition well_formed :: "FileSystem \<Rightarrow> bool" where
  "well_formed s \<longleftrightarrow>
     root s < next_addr s \<and> current_directory s < next_addr s \<and>
     parent (dirs s (root s)) = None \<and>
     (\<forall>p k a. children (dirs s p) k = Some (DirRef a) \<longrightarrow>
        a < next_addr s \<and> a \<noteq> root s \<and> name (dirs s a) = k \<and> parent (dirs s a) = Some p) \<and>
     (\<forall>p k a. children (dirs s p) k = Some (FileRef a) \<longrightarrow>
        a < next_addr s \<and> name (files s a) = k) \<and>
     (\<forall>p k a p' k'. children (dirs s p) k = Some (FileRef a) \<longrightarrow>
        children (dirs s p') k' = Some (FileRef a) \<longrightarrow> p = p') \<and>
     (\<forall>a p. parent (dirs s a) = Some p \<longrightarrow> p < next_addr s)"

text \<open>
  The states a session can be in: a fresh file system and whatever the operations make of
  it. A call that raises leaves a state too (the terminal reports the exception and reads
  the next command).
\<close>

inductive reachable :: "FileSystem \<Rightarrow> bool" where
  fresh: "reachable (FileSystem_init ow)"
| by_create_file: "reachable s \<Longrightarrow> reachable (snd (create_file s nm ow c))"
| by_create_directory: "reachable s \<Longrightarrow> reachable (snd (create_directory s nm ow))"
| by_change_directory: "reachable s \<Longrightarrow> reachable (snd (change_directory limit s path))"
| by_write_file: "reachable s \<Longrightarrow> reachable (snd (write_file s nm c ow))"
| by_append_file: "reachable s \<Longrightarrow> reachable (snd (append_file s nm c))"
| by_delete: "reachable s \<Longrightarrow> reachable (snd (delete s nm))"
| by_move: "reachable s \<Longrightarrow> reachable (snd (move s source destination))"
| by_copy_file: "reachable s \<Longrightarrow> reachable (snd (copy_file s source destination ow))"

text \<open>
  An entry is linked when it can be reached from the root through \<open>children\<close>;
  \<open>dir_child\<close> is the relation between a directory and the directories it holds.
\<close>

inductive linked :: "FileSystem \<Rightarrow> item \<Rightarrow> bool" where
  root: "linked s (DirRef (root s))"
| child: "linked s (DirRef p) \<Longrightarrow> children (dirs s p) k = Some it \<Longrightarrow> linked s it"

definition dir_child :: "FileSystem \<Rightarrow> (addr \<times> addr) set" where
  "dir_child s = {(p, a). \<exists>k. children (dirs s p) k = Some (DirRef a)}"

subsection \<open>A sample session\<close>

text \<open>
  \<open>mkdir d; touch g; mv g d; write f abc\<close> in a fresh file system of user \<open>u\<close>: the
  root then holds the directory \<open>d\<close> (address 1), which holds the file \<open>g\<close> (address 2),
  and the file \<open>f\<close> (address 3).
\<close>

definition demo :: FileSystem where
  "demo =
     (let s0 = FileSystem_init ''u'';
          s1 = snd (create_directory s0 ''d'' ''u'');
          s2 = snd (create_file s1 ''g'' ''u'' []);
          s3 = snd (move s2 ''g'' ''d'')
      in snd (write_file s3 ''f'' ''abc'' ''u''))"

text \<open>\<open>mkdir d; mv d d\<close> in a fresh file system: the directory is moved into itself.\<close>

definition lost :: FileSystem where
  "lost = snd (move (snd (create_directory (FileSystem_init ''u'') ''d'' ''u'')) ''d'' ''d'')"

text \<open>
  \<open>mkdir d; cd d\<close>, and that \<open>n\<close> times over in a fresh file system; \<open>too_deep\<close>
  is the state after \<open>limit - 1\<close> such steps and one more \<open>mkdir d\<close>.
\<close>

definition descend :: "nat \<Rightarrow> FileSystem \<Rightarrow> FileSystem" where
  "descend limit s = snd (change_directory limit (snd (create_directory s ''d'' ''u'')) ''d'')"

definition nested :: "nat \<Rightarrow> nat \<Rightarrow> FileSystem" where
  "nested limit n = (descend limit ^^ n) (FileSystem_init ''u'')"

definition too_deep :: "nat \<Rightarrow> FileSystem" where
  "too_deep limit = snd (create_directory (nested limit (limit - 1)) ''d'' ''u'')"

text \<open>\<open>touch .\<close> in a fresh file system: a file whose name is a single dot.\<close>

definition dotted :: FileSystem where
  "dotted = snd (create_file (FileSystem_init ''u'') ''.'' ''u'' [])"

subsection \<open>Path resolution as the specification words it\<close>

text \<open>
  The specification's rule for an absolute path: \<open>/\<close> alone is the root; otherwise
  strip the leading slashes, split what remains on \<open>/\<close> and walk from the root. This
  definition follows those words, to be compared with \<open>navigate_absolute_path\<close>.
\<close>

definition resolve_spec :: "FileSystem \<Rightarrow> string \<Rightarrow> item option" where
  "resolve_spec s path =
     (if path = ''/'' then Some (DirRef (root s))
      else walk s (DirRef (root s)) (split CHR ''/'' (dropWhile (\<lambda>c. c = CHR ''/'') path)))"

text \<open>
  Python's \<open>sep.join(parts)\<close>, to write down the path that has given segments.
\<close>

fun join :: "char \<Rightarrow> string list \<Rightarrow> string" where
  "join sep [] = []"
| "join sep [x] = x"
| "join sep (x # y # zs) = x @ sep # join sep (y # zs)"

text \<open>A registry with the users \<open>alice\<close> and \<open>bob\<close>, nobody logged in yet.\<close>

definition demo_net :: NetworkFileSystem where
  "demo_net =
     snd (create_user (snd (create_user NetworkFileSystem_init ''alice'' ''Smith'')) ''bob'' ''Jones'')"

section \<open>Properties\<close>

lemmas fs_defs = get_def add_file_def add_directory_def place_file_def place_dir_def
  the_file_def the_dir_def set_child_def remove_def File_init_def Directory_init_def

lemmas op_defs = create_file_def create_directory_def change_directory_def read_file_def
  write_file_def append_file_def delete_def move_def copy_file_def

lemma demo_root: "root demo = 0" "current_directory demo = 0" "next_addr demo = 4"
  by (simp_all add: demo_def FileSystem_init_def op_defs fs_defs Let_def)

lemma demo_dirs:
  "children (dirs demo 0) = [''d'' \<mapsto> DirRef (Suc 0), ''f'' \<mapsto> FileRef 3]"
  "children (dirs demo (Suc 0)) = [''g'' \<mapsto> FileRef 2]"
  "parent (dirs demo 0) = None"
  "parent (dirs demo (Suc 0)) = Some 0"
  by (auto simp: demo_def FileSystem_init_def op_defs fs_defs Let_def blank_dir_def)

lemma demo_files:
  "files demo 3 = File_init ''f'' ''abc'' ''u''"
  "files demo 2 = File_init ''g'' [] ''u''"
  by (simp_all add: demo_def FileSystem_init_def op_defs fs_defs Let_def)

subsection \<open>The shape is kept by every operation\<close>

lemma well_formedI:
  assumes "root s < next_addr s" "current_directory s < next_addr s"
    "parent (dirs s (root s)) = None"
    "\<And>p k a. children (dirs s p) k = Some (DirRef a) \<Longrightarrow>
        a < next_addr s \<and> a \<noteq> root s \<and> name (dirs s a) = k \<and> parent (dirs s a) = Some p"
    "\<And>p k a. children (dirs s p) k = Some (FileRef a) \<Longrightarrow>
        a < next_addr s \<and> name (files s a) = k"
    "\<And>p k a p' k'. children (dirs s p) k = Some (FileRef a) \<Longrightarrow>
        children (dirs s p') k' = Some (FileRef a) \<Longrightarrow> p = p'"
    "\<And>a p. parent (dirs s a) = Some p \<Longrightarrow> p < next_addr s"
  shows "well_formed s"
  unfolding well_formed_def using assms by blast

lemma wf_root: "well_formed s \<Longrightarrow> root s < next_addr s \<and> parent (dirs s (root s)) = None"
  by (simp add: well_formed_def)
lemma wf_cwd: "well_formed s \<Longrightarrow> current_directory s < next_addr s"
  by (simp add: well_formed_def)
lemma wf_dir: "well_formed s \<Longrightarrow> children (dirs s p) k = Some (DirRef a) \<Longrightarrow>
   a < next_addr s \<and> a \<noteq> root s \<and> name (dirs s a) = k \<and> parent (dirs s a) = Some p"
  unfolding well_formed_def by blast
lemma wf_file: "well_formed s \<Longrightarrow> children (dirs s p) k = Some (FileRef a) \<Longrightarrow>
   a < next_addr s \<and> name (files s a) = k"
  unfolding well_formed_def by blast
lemma wf_file_unique: "well_formed s \<Longrightarrow> children (dirs s p) k = Some (FileRef a) \<Longrightarrow>
   children (dirs s p') k' = Some (FileRef a) \<Longrightarrow> p = p'"
  unfolding well_formed_def by blast
lemma wf_parent: "well_formed s \<Longrightarrow> parent (dirs s a) = Some p \<Longrightarrow> p < next_addr s"
  unfolding well_formed_def by blast

lemma wf_init: "well_formed (FileSystem_init ow)"
  by (simp add: well_formed_def FileSystem_init_def Directory_init_def blank_dir_def)

lemma add_new_file_state:
  assumes "name f \<notin> dom (children (dirs s self))"
  shows "snd (add_file s self (New f)) =
     s\<lparr>files := (files s)(next_addr s := f), next_addr := Suc (next_addr s),
       dirs := (dirs s)(self := (dirs s self)\<lparr>children := (children (dirs s self))(name f \<mapsto> FileRef (next_addr s))\<rparr>)\<rparr>"
  using assms by (simp add: add_file_def the_file_def place_file_def set_child_def)

lemma wf_add_new_file:
  assumes "well_formed s"
  shows "well_formed (snd (add_file s self (New f)))"
proof (cases "name f \<in> dom (children (dirs s self))")
  case True
  then show ?thesis using assms by (simp add: add_file_def the_file_def)
next
  case False
  define s' where "s' = snd (add_file s self (New f))"
  have d: "dirs s' = (dirs s)(self := (dirs s self)\<lparr>children := (children (dirs s self))(name f \<mapsto> FileRef (next_addr s))\<rparr>)"
    and f: "files s' = (files s)(next_addr s := f)"
    and n: "next_addr s' = Suc (next_addr s)" and r: "root s' = root s"
    and c: "current_directory s' = current_directory s"
    unfolding s'_def add_new_file_state[OF False] by simp_all
  have ch: "children (dirs s' p) k = Some v \<Longrightarrow>
      children (dirs s p) k = Some v \<or> (p = self \<and> k = name f \<and> v = FileRef (next_addr s))" for p k v
    by (auto simp: d split: if_splits)
  have pa: "parent (dirs s' a) = parent (dirs s a)" for a by (simp add: d)
  have nm: "name (dirs s' a) = name (dirs s a)" for a by (simp add: d)
  have "well_formed s'"
  proof (rule well_formedI)
    show "root s' < next_addr s'" "current_directory s' < next_addr s'"
      using wf_root[OF assms] wf_cwd[OF assms] by (simp_all add: n r c)
    show "parent (dirs s' (root s')) = None"
      using wf_root[OF assms] by (simp add: pa r)
  next
    fix p k a assume "children (dirs s' p) k = Some (DirRef a)"
    from ch[OF this] have "children (dirs s p) k = Some (DirRef a)" by simp
    from wf_dir[OF assms this]
    show "a < next_addr s' \<and> a \<noteq> root s' \<and> name (dirs s' a) = k \<and> parent (dirs s' a) = Some p"
      by (simp add: pa nm n r)
  next
    fix p k a assume "children (dirs s' p) k = Some (FileRef a)"
    from ch[OF this] show "a < next_addr s' \<and> name (files s' a) = k"
    proof
      assume "children (dirs s p) k = Some (FileRef a)"
      from wf_file[OF assms this] show ?thesis by (auto simp: n f)
    next
      assume "p = self \<and> k = name f \<and> FileRef a = FileRef (next_addr s)"
      then show ?thesis by (simp add: n f)
    qed
  next
    fix p k a p' k'
    assume 1: "children (dirs s' p) k = Some (FileRef a)" and 2: "children (dirs s' p') k' = Some (FileRef a)"
    show "p = p'"
    proof (cases "a = next_addr s")
      case True
      have "children (dirs s q) j \<noteq> Some (FileRef a)" for q j
        using wf_file[OF assms, of q j a] True by auto
      with ch[OF 1] ch[OF 2] show ?thesis by auto
    next
      case False
      with ch[OF 1] ch[OF 2] have "children (dirs s p) k = Some (FileRef a)"
        "children (dirs s p') k' = Some (FileRef a)" by auto
      then show ?thesis by (rule wf_file_unique[OF assms])
    qed
  next
    fix a p assume "parent (dirs s' a) = Some p"
    then have "parent (dirs s a) = Some p" by (simp add: pa)
    from wf_parent[OF assms this] show "p < next_addr s'" by (simp add: n)
  qed
  then show ?thesis by (simp add: s'_def)
qed


lemma add_new_dir_state:
  assumes "name d \<notin> dom (children (dirs s self))" "self \<noteq> next_addr s"
  shows "snd (add_directory s self (New d)) =
     s\<lparr>next_addr := Suc (next_addr s),
       dirs := (dirs s)(self := (dirs s self)\<lparr>children := (children (dirs s self))(name d \<mapsto> DirRef (next_addr s))\<rparr>,
                       next_addr s := d\<lparr>parent := Some self\<rparr>)\<rparr>"
  using assms
  by (simp add: add_directory_def the_dir_def place_dir_def set_child_def Let_def fun_upd_twist)

lemma wf_add_new_dir:
  assumes "well_formed s" and lt: "self < next_addr s" and em: "children d = Map.empty"
  shows "well_formed (snd (add_directory s self (New d)))"
proof (cases "name d \<in> dom (children (dirs s self))")
  case True
  then show ?thesis using assms by (simp add: add_directory_def the_dir_def)
next
  case False
  define s' where "s' = snd (add_directory s self (New d))"
  define n where "n = next_addr s"
  have ne: "self \<noteq> n" using lt by (simp add: n_def)
  have st: "s' = s\<lparr>next_addr := Suc n,
       dirs := (dirs s)(self := (dirs s self)\<lparr>children := (children (dirs s self))(name d \<mapsto> DirRef n)\<rparr>,
                       n := d\<lparr>parent := Some self\<rparr>)\<rparr>"
    unfolding s'_def n_def using add_new_dir_state[OF False] lt by simp
  have f: "files s' = files s" and nx: "next_addr s' = Suc n" and r: "root s' = root s"
    and c: "current_directory s' = current_directory s"
    unfolding st by simp_all
  have held: "children (dirs s q) j \<noteq> Some (DirRef n)" for q j
    using wf_dir[OF assms(1), of q j n] by (auto simp: n_def)
  have ch: "children (dirs s' p) k = Some v \<Longrightarrow>
      (p \<noteq> n \<and> children (dirs s p) k = Some v) \<or> (p = self \<and> k = name d \<and> v = DirRef n)" for p k v
    unfolding st using ne em by (auto split: if_splits)
  have pa: "a \<noteq> n \<Longrightarrow> parent (dirs s' a) = parent (dirs s a)" for a
    unfolding st by simp
  have pn: "parent (dirs s' n) = Some self" "name (dirs s' n) = name d" unfolding st by simp_all
  have nm: "a \<noteq> n \<Longrightarrow> name (dirs s' a) = name (dirs s a)" for a unfolding st by simp
  have rn: "root s \<noteq> n" using wf_root[OF assms(1)] by (auto simp: n_def)
  have "well_formed s'"
  proof (rule well_formedI)
    show "root s' < next_addr s'" "current_directory s' < next_addr s'"
      using wf_root[OF assms(1)] wf_cwd[OF assms(1)] by (simp_all add: nx r c n_def)
    show "parent (dirs s' (root s')) = None"
      using wf_root[OF assms(1)] rn by (simp add: pa r)
  next
    fix p k a assume "children (dirs s' p) k = Some (DirRef a)"
    from ch[OF this]
    show "a < next_addr s' \<and> a \<noteq> root s' \<and> name (dirs s' a) = k \<and> parent (dirs s' a) = Some p"
    proof
      assume h: "p \<noteq> n \<and> children (dirs s p) k = Some (DirRef a)"
      then have "a \<noteq> n" using held by auto
      with wf_dir[OF assms(1), of p k a] h show ?thesis by (simp add: pa nm nx r n_def)
    next
      assume "p = self \<and> k = name d \<and> DirRef a = DirRef n"
      then show ?thesis using rn by (simp add: pn nx r)
    qed
  next
    fix p k a assume "children (dirs s' p) k = Some (FileRef a)"
    from ch[OF this] have "children (dirs s p) k = Some (FileRef a)" by auto
    from wf_file[OF assms(1) this] show "a < next_addr s' \<and> name (files s' a) = k"
      by (simp add: f nx n_def)
  next
    fix p k a p' k'
    assume "children (dirs s' p) k = Some (FileRef a)" "children (dirs s' p') k' = Some (FileRef a)"
    then have "children (dirs s p) k = Some (FileRef a)" "children (dirs s p') k' = Some (FileRef a)"
      using ch by blast+
    then show "p = p'" by (rule wf_file_unique[OF assms(1)])
  next
    fix a p assume h: "parent (dirs s' a) = Some p"
    show "p < next_addr s'"
    proof (cases "a = n")
      case True
      with h have "p = self" by (simp add: pn)
      with lt show ?thesis by (simp add: nx n_def)
    next
      case False
      with h have "parent (dirs s a) = Some p" by (simp add: pa)
      from wf_parent[OF assms(1) this] show ?thesis by (simp add: nx n_def)
    qed
  qed
  then show ?thesis by (simp add: s'_def)
qed

lemma wf_file_update:
  assumes "well_formed s" "name f = name (files s a)"
  shows "well_formed (s\<lparr>files := (files s)(a := f)\<rparr>)"
proof -
  define s' where "s' = s\<lparr>files := (files s)(a := f)\<rparr>"
  have o: "dirs s' = dirs s" "next_addr s' = next_addr s" "root s' = root s"
    "current_directory s' = current_directory s"
    and nm: "name (files s' b) = name (files s b)" for b
    unfolding s'_def using assms(2) by auto
  have "well_formed s'"
  proof (rule well_formedI)
    show "root s' < next_addr s'" "current_directory s' < next_addr s'"
      "parent (dirs s' (root s')) = None"
      using wf_root[OF assms(1)] wf_cwd[OF assms(1)] by (simp_all add: o)
  next
    fix p k a assume "children (dirs s' p) k = Some (DirRef a)"
    then show "a < next_addr s' \<and> a \<noteq> root s' \<and> name (dirs s' a) = k \<and> parent (dirs s' a) = Some p"
      using wf_dir[OF assms(1), of p k a] by (simp add: o)
  next
    fix p k a assume "children (dirs s' p) k = Some (FileRef a)"
    then show "a < next_addr s' \<and> name (files s' a) = k"
      using wf_file[OF assms(1), of p k a] by (simp add: o nm)
  next
    fix p k a p' k'
    assume "children (dirs s' p) k = Some (FileRef a)" "children (dirs s' p') k' = Some (FileRef a)"
    then show "p = p'" using wf_file_unique[OF assms(1), of p k a p' k'] by (simp add: o)
  next
    fix a p assume "parent (dirs s' a) = Some p"
    then show "p < next_addr s'" using wf_parent[OF assms(1), of a p] by (simp add: o)
  qed
  then show ?thesis by (simp add: s'_def)
qed

lemma wf_set_cwd:
  assumes "well_formed s" "d < next_addr s"
  shows "well_formed (s\<lparr>current_directory := d\<rparr>)"
  using assms unfolding well_formed_def by simp

lemma wf_remove:
  assumes "well_formed s"
  shows "well_formed (snd (remove s self nm))"
proof -
  define s' where "s' = snd (remove s self nm)"
  have ch: "children (dirs s' p) k = Some v \<Longrightarrow> children (dirs s p) k = Some v" for p k v
    unfolding s'_def by (auto simp: remove_def split: if_splits)
  have pa: "parent (dirs s' a) = parent (dirs s a)" "name (dirs s' a) = name (dirs s a)" for a
    unfolding s'_def by (auto simp: remove_def)
  have o: "files s' = files s" "next_addr s' = next_addr s" "root s' = root s"
    "current_directory s' = current_directory s"
    unfolding s'_def by (auto simp: remove_def)
  have "well_formed s'"
  proof (rule well_formedI)
    show "root s' < next_addr s'" "current_directory s' < next_addr s'"
      "parent (dirs s' (root s')) = None"
      using wf_root[OF assms] wf_cwd[OF assms] by (simp_all add: o pa)
  next
    fix p k a assume "children (dirs s' p) k = Some (DirRef a)"
    from wf_dir[OF assms ch[OF this]]
    show "a < next_addr s' \<and> a \<noteq> root s' \<and> name (dirs s' a) = k \<and> parent (dirs s' a) = Some p"
      by (simp add: o pa)
  next
    fix p k a assume "children (dirs s' p) k = Some (FileRef a)"
    from wf_file[OF assms ch[OF this]]
    show "a < next_addr s' \<and> name (files s' a) = k" by (simp add: o)
  next
    fix p k a p' k'
    assume "children (dirs s' p) k = Some (FileRef a)" "children (dirs s' p') k' = Some (FileRef a)"
    then show "p = p'" using wf_file_unique[OF assms] ch by blast
  next
    fix a p assume "parent (dirs s' a) = Some p"
    then show "p < next_addr s'" using wf_parent[OF assms] by (simp add: o pa)
  qed
  then show ?thesis by (simp add: s'_def)
qed

lemma wf_add_old_file:
  assumes "well_formed s" and lt: "a < next_addr s"
    and un: "\<And>q j. children (dirs s q) j \<noteq> Some (FileRef a)"
  shows "well_formed (snd (add_file s self (At a)))"
proof (cases "name (files s a) \<in> dom (children (dirs s self))")
  case True
  then show ?thesis using assms by (simp add: add_file_def the_file_def)
next
  case False
  define s' where "s' = snd (add_file s self (At a))"
  have st: "s' = s\<lparr>dirs := (dirs s)(self := (dirs s self)\<lparr>children :=
      (children (dirs s self))(name (files s a) \<mapsto> FileRef a)\<rparr>)\<rparr>"
    unfolding s'_def using False
    by (simp add: add_file_def the_file_def place_file_def set_child_def)
  have o: "files s' = files s" "next_addr s' = next_addr s" "root s' = root s"
    "current_directory s' = current_directory s"
    and pa: "parent (dirs s' x) = parent (dirs s x)" "name (dirs s' x) = name (dirs s x)" for x
    unfolding st by simp_all
  have ch: "children (dirs s' p) k = Some v \<Longrightarrow>
      children (dirs s p) k = Some v \<or> (p = self \<and> k = name (files s a) \<and> v = FileRef a)" for p k v
    unfolding st by (auto split: if_splits)
  have "well_formed s'"
  proof (rule well_formedI)
    show "root s' < next_addr s'" "current_directory s' < next_addr s'"
      "parent (dirs s' (root s')) = None"
      using wf_root[OF assms(1)] wf_cwd[OF assms(1)] by (simp_all add: o pa)
  next
    fix p k b assume "children (dirs s' p) k = Some (DirRef b)"
    from ch[OF this] have "children (dirs s p) k = Some (DirRef b)" by simp
    from wf_dir[OF assms(1) this]
    show "b < next_addr s' \<and> b \<noteq> root s' \<and> name (dirs s' b) = k \<and> parent (dirs s' b) = Some p"
      by (simp add: o pa)
  next
    fix p k b assume "children (dirs s' p) k = Some (FileRef b)"
    from ch[OF this] show "b < next_addr s' \<and> name (files s' b) = k"
    proof
      assume "children (dirs s p) k = Some (FileRef b)"
      from wf_file[OF assms(1) this] show ?thesis by (simp add: o)
    next
      assume "p = self \<and> k = name (files s a) \<and> FileRef b = FileRef a"
      then show ?thesis using lt by (simp add: o)
    qed
  next
    fix p k b p' k'
    assume 1: "children (dirs s' p) k = Some (FileRef b)" and 2: "children (dirs s' p') k' = Some (FileRef b)"
    show "p = p'"
    proof (cases "b = a")
      case True
      with ch[OF 1] ch[OF 2] un show ?thesis by auto
    next
      case False
      with ch[OF 1] ch[OF 2] have "children (dirs s p) k = Some (FileRef b)"
        "children (dirs s p') k' = Some (FileRef b)" by auto
      then show ?thesis by (rule wf_file_unique[OF assms(1)])
    qed
  next
    fix x p assume "parent (dirs s' x) = Some p"
    then show "p < next_addr s'" using wf_parent[OF assms(1), of x p] by (simp add: o pa)
  qed
  then show ?thesis by (simp add: s'_def)
qed

lemma wf_add_old_dir:
  assumes "well_formed s" and lt: "a < next_addr s" and nr: "a \<noteq> root s"
    and sl: "self < next_addr s"
    and un: "\<And>q j. children (dirs s q) j \<noteq> Some (DirRef a)"
  shows "well_formed (snd (add_directory s self (At a)))"
proof (cases "name (dirs s a) \<in> dom (children (dirs s self))")
  case True
  then show ?thesis using assms by (simp add: add_directory_def the_dir_def)
next
  case False
  define s' where "s' = snd (add_directory s self (At a))"
  define ds where "ds = (dirs s)(self := (dirs s self)\<lparr>children :=
      (children (dirs s self))(name (dirs s a) \<mapsto> DirRef a)\<rparr>)"
  have st: "s' = s\<lparr>dirs := ds(a := (ds a)\<lparr>parent := Some self\<rparr>)\<rparr>"
    unfolding s'_def ds_def using False
    by (simp add: add_directory_def the_dir_def place_dir_def set_child_def Let_def)
  have o: "files s' = files s" "next_addr s' = next_addr s" "root s' = root s"
    "current_directory s' = current_directory s"
    unfolding st by simp_all
  have nm: "name (dirs s' x) = name (dirs s x)" for x
    unfolding st ds_def by simp
  have pa: "parent (dirs s' x) = (if x = a then Some self else parent (dirs s x))" for x
    unfolding st ds_def by simp
  have ch: "children (dirs s' p) k = Some v \<Longrightarrow>
      children (dirs s p) k = Some v \<or> (p = self \<and> k = name (dirs s a) \<and> v = DirRef a)" for p k v
    unfolding st ds_def by (auto split: if_splits)
  have "well_formed s'"
  proof (rule well_formedI)
    show "root s' < next_addr s'" "current_directory s' < next_addr s'"
      "parent (dirs s' (root s')) = None"
      using wf_root[OF assms(1)] wf_cwd[OF assms(1)] nr by (simp_all add: o pa)
  next
    fix p k b assume "children (dirs s' p) k = Some (DirRef b)"
    from ch[OF this]
    show "b < next_addr s' \<and> b \<noteq> root s' \<and> name (dirs s' b) = k \<and> parent (dirs s' b) = Some p"
    proof
      assume h: "children (dirs s p) k = Some (DirRef b)"
      then have "b \<noteq> a" using un by auto
      with wf_dir[OF assms(1) h] show ?thesis by (simp add: o pa nm)
    next
      assume "p = self \<and> k = name (dirs s a) \<and> DirRef b = DirRef a"
      then show ?thesis using lt nr by (simp add: o pa nm)
    qed
  next
    fix p k b assume "children (dirs s' p) k = Some (FileRef b)"
    from ch[OF this] have "children (dirs s p) k = Some (FileRef b)" by auto
    from wf_file[OF assms(1) this] show "b < next_addr s' \<and> name (files s' b) = k"
      by (simp add: o)
  next
    fix p k b p' k'
    assume "children (dirs s' p) k = Some (FileRef b)" "children (dirs s' p') k' = Some (FileRef b)"
    then have "children (dirs s p) k = Some (FileRef b)" "children (dirs s p') k' = Some (FileRef b)"
      using ch by blast+
    then show "p = p'" by (rule wf_file_unique[OF assms(1)])
  next
    fix x p assume "parent (dirs s' x) = Some p"
    then show "p < next_addr s'" using wf_parent[OF assms(1), of x p] sl
      by (auto simp: o pa split: if_splits)
  qed
  then show ?thesis by (simp add: s'_def)
qed

lemma removed_unheld:
  assumes "well_formed s" "children (dirs s self) nm = Some it"
  shows "children (dirs (snd (remove s self nm)) q) j \<noteq> Some it"
proof
  assume h: "children (dirs (snd (remove s self nm)) q) j = Some it"
  have in_s: "children (dirs s q) j = Some it" and ne: "\<not> (q = self \<and> j = nm)"
    using h by (auto simp: remove_def split: if_splits)
  show False
  proof (cases it)
    case (FileRef a)
    with in_s assms(2) have "q = self" using wf_file_unique[OF assms(1), of q j a self nm] by simp
    moreover have "j = nm" using wf_file[OF assms(1), of q j a] wf_file[OF assms(1), of self nm a]
        in_s assms(2) FileRef by simp
    ultimately show False using ne by simp
  next
    case (DirRef a)
    with in_s assms(2) have "q = self \<and> j = nm"
      using wf_dir[OF assms(1), of q j a] wf_dir[OF assms(1), of self nm a] by simp
    then show False using ne by simp
  qed
qed

lemma remove_frame:
  "next_addr (snd (remove s self nm)) = next_addr s"
  "root (snd (remove s self nm)) = root s"
  "files (snd (remove s self nm)) = files s"
  "name (dirs (snd (remove s self nm)) x) = name (dirs s x)"
  by (simp_all add: remove_def)

lemma snd_create_file:
  "snd (create_file s nm ow c) =
     (if nm \<in> dom (children (dirs s (current_directory s))) then s
      else snd (add_file s (current_directory s) (New (File_init nm c ow))))"
  by (simp add: create_file_def Let_def case_prod_beta)

lemma snd_create_directory:
  "snd (create_directory s nm ow) =
     (if nm \<in> dom (children (dirs s (current_directory s))) \<or> nm \<in> set [''.'', ''..''] then s
      else snd (add_directory s (current_directory s)
                 (New (Directory_init nm ow (Some (current_directory s))))))"
  by (simp add: create_directory_def Let_def case_prod_beta)

lemma snd_delete:
  "snd (delete s nm) = s \<or> snd (delete s nm) = snd (remove s (current_directory s) nm)"
  by (simp add: delete_def Let_def case_prod_beta split: option.splits)

lemma snd_copy_file:
  "snd (copy_file s a b ow) = s \<or>
   (\<exists>f. snd (copy_file s a b ow) = snd (add_file s (current_directory s) (New f)))"
  by (auto simp: copy_file_def Let_def case_prod_beta split: option.splits item.splits)

lemma wf_create_file: "well_formed s \<Longrightarrow> well_formed (snd (create_file s nm ow c))"
  by (simp add: snd_create_file wf_add_new_file)

lemma wf_create_directory: "well_formed s \<Longrightarrow> well_formed (snd (create_directory s nm ow))"
  by (simp add: snd_create_directory wf_add_new_dir wf_cwd Directory_init_def)

lemma wf_write_file: "well_formed s \<Longrightarrow> well_formed (snd (write_file s nm c ow))"
  by (auto simp: write_file_def wf_create_file file_write_def intro!: wf_file_update
      split: option.splits item.splits)

lemma wf_append_file: "well_formed s \<Longrightarrow> well_formed (snd (append_file s nm c))"
  by (auto simp: append_file_def file_append_def Let_def intro!: wf_file_update
      split: option.splits item.splits)

lemma wf_delete: "well_formed s \<Longrightarrow> well_formed (snd (delete s nm))"
  using snd_delete[of s nm] wf_remove[of s "current_directory s" nm] by auto

lemma wf_copy_file: "well_formed s \<Longrightarrow> well_formed (snd (copy_file s a b ow))"
  using snd_copy_file[of s a b ow] wf_add_new_file[of s "current_directory s"] by auto

lemma wf_move:
  assumes "well_formed s"
  shows "well_formed (snd (move s source destination))"
proof (cases "fst (fst (move s source destination))")
  case False
  then show ?thesis using assms by (auto simp: move_def Let_def split: option.splits item.splits if_splits)
next
  case True
  then obtain it dest where src: "children (dirs s (current_directory s)) source = Some it"
    and dst: "children (dirs s (current_directory s)) destination = Some (DirRef dest)"
    and res: "snd (move s source destination) =
      (let s1 = snd (remove s (current_directory s) source)
       in case it of FileRef a \<Rightarrow> snd (add_file s1 dest (At a))
                   | DirRef a \<Rightarrow> snd (add_directory s1 dest (At a)))"
    by (auto simp: move_def get_def Let_def split: option.splits item.splits if_splits)
  define s1 where "s1 = snd (remove s (current_directory s) source)"
  have w1: "well_formed s1" unfolding s1_def by (rule wf_remove[OF assms])
  have un: "children (dirs s1 q) j \<noteq> Some it" for q j
    unfolding s1_def by (rule removed_unheld[OF assms src])
  have dl: "dest < next_addr s1"
    using wf_dir[OF assms dst] by (simp add: s1_def remove_frame)
  show ?thesis
  proof (cases it)
    case (FileRef a)
    have "a < next_addr s1" using wf_file[OF assms, of "current_directory s" source a] src FileRef
      by (simp add: s1_def remove_frame)
    then have "well_formed (snd (add_file s1 dest (At a)))"
      using un FileRef by (intro wf_add_old_file[OF w1]) auto
    then show ?thesis by (simp add: res FileRef s1_def)
  next
    case (DirRef a)
    have "a < next_addr s1 \<and> a \<noteq> root s1"
      using wf_dir[OF assms, of "current_directory s" source a] src DirRef
      by (simp add: s1_def remove_frame)
    then have "well_formed (snd (add_directory s1 dest (At a)))"
      using un DirRef dl by (intro wf_add_old_dir[OF w1]) auto
    then show ?thesis by (simp add: res DirRef s1_def)
  qed
qed

lemma walk_allocated:
  "well_formed s \<Longrightarrow> walk s it parts = Some (DirRef t) \<Longrightarrow>
   (\<And>d. it = DirRef d \<Longrightarrow> d < next_addr s) \<Longrightarrow> t < next_addr s"
proof (induction parts arbitrary: it)
  case Nil
  then show ?case by simp
next
  case (Cons part parts)
  from Cons.prems(2) obtain d nxt where it: "it = DirRef d"
    and g: "children (dirs s d) part = Some nxt" and w: "walk s nxt parts = Some (DirRef t)"
    by (auto simp: get_def split: item.splits option.splits)
  show ?case
  proof (rule Cons.IH[OF Cons.prems(1) w])
    fix e assume "nxt = DirRef e"
    with g wf_dir[OF Cons.prems(1), of d part e] show "e < next_addr s" by simp
  qed
qed

lemma snd_changed_to: "snd (changed_to limit s') = s'"
  by (simp add: changed_to_def split: sum.splits)

lemma snd_change_directory:
  "snd (change_directory limit s path) =
     (if path = ''/'' then s\<lparr>current_directory := root s\<rparr>
      else if path = ''..''
      then (case parent (dirs s (current_directory s)) of
              Some p \<Rightarrow> s\<lparr>current_directory := p\<rparr> | None \<Rightarrow> s)
      else if path = ''.'' then s
      else if take 1 path = ''/''
      then (case navigate_absolute_path s path of
              Some (DirRef target) \<Rightarrow> s\<lparr>current_directory := target\<rparr> | _ \<Rightarrow> s)
      else (case get s (current_directory s) path of
              Some (DirRef d) \<Rightarrow> s\<lparr>current_directory := d\<rparr> | _ \<Rightarrow> s))"
  by (simp add: change_directory_def snd_changed_to split: option.splits item.splits sum.splits)

lemma wf_change_directory:
  assumes "well_formed s"
  shows "well_formed (snd (change_directory limit s path))"
proof -
  have "snd (change_directory limit s path) = s \<or>
      (\<exists>d. d < next_addr s \<and> snd (change_directory limit s path) = s\<lparr>current_directory := d\<rparr>)"
    using wf_root[OF assms] wf_parent[OF assms, of "current_directory s"]
      wf_dir[OF assms, of "current_directory s" path]
      walk_allocated[OF assms, of "DirRef (root s)" "split CHR ''/'' (strip ''/'' path)"]
    by (auto simp: snd_change_directory navigate_absolute_path_def get_def
        split: if_splits option.splits item.splits)
  then show ?thesis using assms wf_set_cwd by auto
qed

lemma reachable_well_formed: "reachable s \<Longrightarrow> well_formed s"
  by (induction rule: reachable.induct)
    (simp_all add: wf_init wf_create_file wf_create_directory wf_change_directory wf_write_file
      wf_append_file wf_delete wf_move wf_copy_file)

lemma delete_directory:
  assumes "well_formed s" and g: "get s (current_directory s) n = Some (DirRef d)"
  shows "name (dirs s d) = n"
    and "dom (children (dirs s d)) \<noteq> {} \<Longrightarrow>
           delete s n = ((False, ''Directory '' @ quoted n @ '' is not empty''), s)"
    and "dom (children (dirs s d)) = {} \<Longrightarrow> fst (fst (delete s n)) = True"
    and "dom (children (dirs s d)) = {} \<Longrightarrow> \<not> linked (snd (delete s n)) (DirRef d)"
proof -
  have ch: "children (dirs s (current_directory s)) n = Some (DirRef d)"
    using g by (simp add: get_def)
  from wf_dir[OF assms(1) ch] show "name (dirs s d) = n" by simp
  show "dom (children (dirs s d)) \<noteq> {} \<Longrightarrow>
           delete s n = ((False, ''Directory '' @ quoted n @ '' is not empty''), s)"
    using g by (simp add: delete_def)
  assume em: "dom (children (dirs s d)) = {}"
  have res: "delete s n = ((True, quoted n @ '' deleted successfully''),
      snd (remove s (current_directory s) n))"
    using g ch em by (simp add: delete_def remove_def get_def domI)
  show "fst (fst (delete s n)) = True" by (simp add: res)
  show "\<not> linked (snd (delete s n)) (DirRef d)"
  proof
    assume "linked (snd (delete s n)) (DirRef d)"
    then show False
    proof (cases rule: linked.cases)
      case root
      then show ?thesis using wf_dir[OF assms(1) ch] by (simp add: res remove_frame)
    next
      case (child p k)
      then show ?thesis using removed_unheld[OF assms(1) ch, of p k] by (simp add: res)
    qed
  qed
qed

lemma pred_unique:
  "well_formed s \<Longrightarrow> (p, a) \<in> dir_child s \<Longrightarrow> (q, a) \<in> dir_child s \<Longrightarrow> p = q"
  using wf_dir[of s p _ a] wf_dir[of s q _ a] by (auto simp: dir_child_def)

lemma cycle_back:
  assumes "well_formed s" "(x, y) \<in> dir_child s" "(y, y) \<in> (dir_child s)\<^sup>+"
  shows "(x, x) \<in> (dir_child s)\<^sup>+"
proof -
  from assms(3) obtain z where z: "(y, z) \<in> (dir_child s)\<^sup>*" "(z, y) \<in> dir_child s"
    by (meson tranclD2)
  from pred_unique[OF assms(1) z(2) assms(2)] have "z = x" .
  with z(1) assms(2) show ?thesis by auto
qed

lemma root_linked_acyclic:
  assumes "well_formed s" "(root s, a) \<in> (dir_child s)\<^sup>*"
  shows "(a, a) \<notin> (dir_child s)\<^sup>+"
proof
  assume cyc: "(a, a) \<in> (dir_child s)\<^sup>+"
  from assms(2) have "(root s, root s) \<in> (dir_child s)\<^sup>+"
  proof (induction rule: converse_rtrancl_induct)
    case base
    show ?case by (rule cyc)
  next
    case (step y z)
    then show ?case using cycle_back[OF assms(1)] by blast
  qed
  then obtain z where "(z, root s) \<in> dir_child s" by (meson tranclD2)
  then show False using wf_dir[OF assms(1), of z _ "root s"] by (auto simp: dir_child_def)
qed

subsection \<open>A returned failure leaves the state alone\<close>

lemma create_file_failure:
  "fst (fst (create_file s nm ow c)) = False \<Longrightarrow> snd (create_file s nm ow c) = s"
  by (auto simp: create_file_def fs_defs Let_def split: if_splits prod.splits)

lemma create_directory_failure:
  "fst (fst (create_directory s nm ow)) = False \<Longrightarrow> snd (create_directory s nm ow) = s"
  by (auto simp: create_directory_def fs_defs Let_def split: if_splits prod.splits)

lemma change_directory_failure:
  "change_directory limit s path = (Inr (False, m), s') \<Longrightarrow> s' = s"
  by (auto simp: change_directory_def changed_to_def
      split: if_splits option.splits item.splits sum.splits)

lemma write_file_failure:
  "fst (fst (write_file s nm c ow)) = False \<Longrightarrow> snd (write_file s nm c ow) = s"
  by (auto simp: write_file_def create_file_failure split: option.splits item.splits)

lemma append_file_failure:
  "fst (fst (append_file s nm c)) = False \<Longrightarrow> snd (append_file s nm c) = s"
  by (auto simp: append_file_def split: option.splits item.splits)

lemma delete_failure:
  "fst (fst (delete s nm)) = False \<Longrightarrow> snd (delete s nm) = s"
  by (auto simp: delete_def fs_defs Let_def split: option.splits item.splits if_splits prod.splits)

lemma move_failure:
  "fst (fst (move s a b)) = False \<Longrightarrow> snd (move s a b) = s"
  by (auto simp: move_def Let_def split: option.splits item.splits if_splits)

lemma copy_file_failure:
  "fst (fst (copy_file s a b ow)) = False \<Longrightarrow> snd (copy_file s a b ow) = s"
  by (auto simp: copy_file_def fs_defs Let_def split: option.splits item.splits if_splits prod.splits)

text \<open>
  What holds of every operation in every state: a result with the flag \<open>False\<close> comes
  with the state the operation was called in.
\<close>

lemma failure_result_keeps_state:
  "(fst (fst (create_file s nm ow c)) = False \<longrightarrow> snd (create_file s nm ow c) = s) \<and>
   (fst (fst (create_directory s nm ow)) = False \<longrightarrow> snd (create_directory s nm ow) = s) \<and>
   (\<forall>m s'. change_directory limit s nm = (Inr (False, m), s') \<longrightarrow> s' = s) \<and>
   (fst (fst (write_file s nm c ow)) = False \<longrightarrow> snd (write_file s nm c ow) = s) \<and>
   (fst (fst (append_file s nm c)) = False \<longrightarrow> snd (append_file s nm c) = s) \<and>
   (fst (fst (delete s nm)) = False \<longrightarrow> snd (delete s nm) = s) \<and>
   (fst (fst (move s nm dst)) = False \<longrightarrow> snd (move s nm dst) = s) \<and>
   (fst (fst (copy_file s nm dst ow)) = False \<longrightarrow> snd (copy_file s nm dst ow) = s)"
proof -
  have "\<forall>m s'. change_directory limit s nm = (Inr (False, m), s') \<longrightarrow> s' = s"
    using change_directory_failure by blast
  then show ?thesis
    by (simp add: create_file_failure create_directory_failure write_file_failure
        append_file_failure delete_failure move_failure copy_file_failure)
qed

lemma reachable_demo: "reachable demo"
  unfolding demo_def Let_def
  by (intro reachable.by_write_file reachable.by_move reachable.by_create_file
      reachable.by_create_directory reachable.fresh)

lemma demo_refuses:
  "fst (fst (create_file demo ''d'' ''u'' ''x'')) = False"
  "fst (fst (create_directory demo ''d'' ''u'')) = False"
  "change_directory limit demo ''f'' = (Inr (False, ''Directory 'f' not found''), demo)"
  "fst (fst (write_file demo ''d'' ''x'' ''u'')) = False"
  "fst (fst (append_file demo ''d'' ''x'')) = False"
  "fst (fst (delete demo ''d'')) = False"
  "fst (fst (move demo ''d'' ''f'')) = False"
  "fst (fst (copy_file demo ''d'' ''f'' ''u'')) = False"
  by (simp_all add: op_defs get_def demo_root demo_dirs)

subsection \<open>A directory too deep for \<open>get_path\<close>\<close>

lemma get_path_no_parent:
  "0 < limit \<Longrightarrow> parent (dirs s a) = None \<Longrightarrow> get_path limit s a = Inr ''/''"
  by (cases limit) simp_all

lemma mkdir_state:
  assumes "next_addr s = Suc n" and "current_directory s = n"
    and "children (dirs s n) = Map.empty"
  shows "snd (create_directory s ''d'' ''u'') =
     s\<lparr>next_addr := Suc (Suc n),
       dirs := (dirs s)(n := (dirs s n)\<lparr>children := [''d'' \<mapsto> DirRef (Suc n)]\<rparr>,
                       Suc n := (Directory_init ''d'' ''u'' (Some n))\<lparr>parent := Some n\<rparr>)\<rparr>"
  unfolding snd_create_directory
  using add_new_dir_state[of "Directory_init ''d'' ''u'' (Some n)" s n] assms
  by (simp add: Directory_init_def)

lemma nested_shape:
  "next_addr (nested limit n) = Suc n \<and> current_directory (nested limit n) = n \<and>
   root (nested limit n) = 0 \<and> children (dirs (nested limit n) n) = Map.empty \<and>
   (\<forall>i\<le>n. parent (dirs (nested limit n) i) = (case i of 0 \<Rightarrow> None | Suc j \<Rightarrow> Some j))"
proof (induction n)
  case 0
  show ?case
    by (simp add: nested_def FileSystem_init_def Directory_init_def)
next
  case (Suc n)
  define s where "s = nested limit n"
  define s1 where "s1 = snd (create_directory s ''d'' ''u'')"
  have sh: "next_addr s = Suc n" "current_directory s = n" "root s = 0"
    "children (dirs s n) = Map.empty"
    "\<And>i. i \<le> n \<Longrightarrow> parent (dirs s i) = (case i of 0 \<Rightarrow> None | Suc j \<Rightarrow> Some j)"
    using Suc.IH by (simp_all add: s_def)
  have s1: "s1 = s\<lparr>next_addr := Suc (Suc n),
       dirs := (dirs s)(n := (dirs s n)\<lparr>children := [''d'' \<mapsto> DirRef (Suc n)]\<rparr>,
                       Suc n := (Directory_init ''d'' ''u'' (Some n))\<lparr>parent := Some n\<rparr>)\<rparr>"
    unfolding s1_def using sh(1,2,4) by (rule mkdir_state)
  have "nested limit (Suc n) = snd (change_directory limit s1 ''d'')"
    by (simp add: nested_def descend_def s1_def s_def)
  also have "\<dots> = s1\<lparr>current_directory := Suc n\<rparr>"
    by (simp add: snd_change_directory get_def s1 sh)
  finally have st: "nested limit (Suc n) = s1\<lparr>current_directory := Suc n\<rparr>" .
  have "parent (dirs (nested limit (Suc n)) i) = (case i of 0 \<Rightarrow> None | Suc j \<Rightarrow> Some j)"
    if "i \<le> Suc n" for i
    using that sh(5)[of i] by (auto simp: st s1 Directory_init_def le_Suc_eq)
  then show ?case
    by (simp add: st s1 sh Directory_init_def)
qed

lemma nested_mkdir:
  "current_directory (snd (create_directory (nested limit n) ''d'' ''u'')) = n \<and>
   get (snd (create_directory (nested limit n) ''d'' ''u'')) n ''d'' = Some (DirRef (Suc n))"
proof -
  have "next_addr (nested limit n) = Suc n" "current_directory (nested limit n) = n"
    "children (dirs (nested limit n) n) = Map.empty"
    using nested_shape[of limit n] by simp_all
  from mkdir_state[OF this] show ?thesis
    using \<open>current_directory (nested limit n) = n\<close> by (simp add: get_def)
qed

lemma get_path_chain:
  "(\<And>i. i \<le> a \<Longrightarrow> parent (dirs s i) = (case i of 0 \<Rightarrow> None | Suc j \<Rightarrow> Some j)) \<Longrightarrow>
   (limit \<le> a \<longrightarrow> get_path limit s a = Inl RecursionError) \<and>
   (a < limit \<longrightarrow> (\<exists>p. get_path limit s a = Inr p))"
proof (induction limit arbitrary: a)
  case 0
  show ?case by simp
next
  case (Suc limit)
  show ?case
  proof (cases a)
    case 0
    then show ?thesis using Suc.prems[of 0] by simp
  next
    case (Suc b)
    have "(limit \<le> b \<longrightarrow> get_path limit s b = Inl RecursionError) \<and>
          (b < limit \<longrightarrow> (\<exists>p. get_path limit s b = Inr p))"
      using Suc.prems by (intro Suc.IH) (simp add: \<open>a = Suc b\<close>)
    moreover have "parent (dirs s a) = Some b" using Suc.prems[of a] \<open>a = Suc b\<close> by simp
    ultimately show ?thesis using \<open>a = Suc b\<close> by auto
  qed
qed

lemma reachable_nested: "reachable (nested limit n)"
proof (induction n)
  case 0
  show ?case by (simp add: nested_def reachable.fresh)
next
  case (Suc n)
  have "nested limit (Suc n) = descend limit (nested limit n)" by (simp add: nested_def)
  then show ?case
    unfolding descend_def
    using Suc.IH by (simp add: reachable.by_change_directory reachable.by_create_directory)
qed

lemma too_deep_state:
  "snd (change_directory limit (too_deep limit) ''d'') = nested limit (Suc (limit - 1))"
  by (simp add: too_deep_def nested_def descend_def)

lemma descend_returns:
  assumes "Suc n < limit"
  shows "\<exists>p. change_directory limit (snd (create_directory (nested limit n) ''d'' ''u'')) ''d'' =
     (Inr (True, ''Changed to '' @ p), nested limit (Suc n))"
proof -
  define s1 where "s1 = snd (create_directory (nested limit n) ''d'' ''u'')"
  have st: "snd (change_directory limit s1 ''d'') = nested limit (Suc n)"
    by (simp add: s1_def nested_def descend_def)
  have cw: "current_directory (nested limit (Suc n)) = Suc n"
    using nested_shape[of limit "Suc n"] by simp
  have g: "get s1 (current_directory s1) ''d'' = Some (DirRef (Suc n))"
    using nested_mkdir[of limit n] by (simp add: s1_def)
  have "\<exists>p. get_path limit (nested limit (Suc n)) (Suc n) = Inr p"
    using get_path_chain[of "Suc n" "nested limit (Suc n)" limit] nested_shape[of limit "Suc n"]
      assms by simp
  then obtain p where "get_path limit (nested limit (Suc n)) (Suc n) = Inr p" ..
  moreover have "s1\<lparr>current_directory := Suc n\<rparr> = nested limit (Suc n)"
    using st g by (simp add: snd_change_directory)
  ultimately have "change_directory limit s1 ''d'' =
      (Inr (True, ''Changed to '' @ p), nested limit (Suc n))"
    using g by (simp add: change_directory_def changed_to_def get_current_path_def cw)
  then show ?thesis unfolding s1_def by blast
qed

text \<open>
  Claim C2. The claim fails for \<open>change_directory\<close>. Repeat \<open>mkdir d; cd d\<close> until the
  current directory is as deep as \<open>get_path\<close> has frames less one (every \<open>cd\<close> so far
  returns, see \<open>descend_returns\<close>), then \<open>mkdir d\<close> once more. \<open>change_directory("d")\<close>
  now moves the current directory into the new directory and then raises
  \<open>RecursionError\<close>: the operation has changed the state and failed. What does hold is in
  \<open>failure_result_keeps_state\<close>.
\<close>

theorem change_directory_moves_then_raises:
  "reachable (too_deep limit) \<and>
   current_directory (too_deep limit) = limit - 1 \<and>
   change_directory limit (too_deep limit) ''d'' =
     (Inl RecursionError, (too_deep limit)\<lparr>current_directory := Suc (limit - 1)\<rparr>)"
proof -
  define n where "n = limit - 1"
  define s1 where "s1 = too_deep limit"
  have r: "reachable s1"
    unfolding s1_def too_deep_def by (intro reachable.by_create_directory reachable_nested)
  have st: "snd (change_directory limit s1 ''d'') = nested limit (Suc n)"
    unfolding s1_def n_def by (rule too_deep_state)
  have cw: "current_directory (nested limit (Suc n)) = Suc n"
    using nested_shape[of limit "Suc n"] by simp
  have c1: "current_directory s1 = n"
    using nested_mkdir[of limit n] by (simp add: s1_def too_deep_def n_def)
  have g: "get s1 (current_directory s1) ''d'' = Some (DirRef (Suc n))"
    using nested_mkdir[of limit n] by (simp add: s1_def too_deep_def n_def)
  have mv: "s1\<lparr>current_directory := Suc n\<rparr> = nested limit (Suc n)"
    using st g by (simp add: snd_change_directory)
  have "get_path limit (nested limit (Suc n)) (Suc n) = Inl RecursionError"
    using get_path_chain[of "Suc n" "nested limit (Suc n)" limit] nested_shape[of limit "Suc n"]
    by (simp add: n_def)
  then have "change_directory limit s1 ''d'' = (Inl RecursionError, s1\<lparr>current_directory := Suc n\<rparr>)"
    using g mv by (simp add: change_directory_def changed_to_def get_current_path_def cw)
  with r c1 show ?thesis by (simp add: s1_def n_def)
qed

subsection \<open>Writing, appending and reading back\<close>

text \<open>
  Claim C7. If \<open>write_file(f, c, owner)\<close> reports success, then \<open>read_file(f)\<close> in the
  state it leaves returns \<open>(True, c)\<close>.
\<close>

theorem write_then_read:
  "fst (fst (write_file s f c ow)) \<Longrightarrow> read_file (snd (write_file s f c ow)) f = (True, c)"
  by (auto simp: write_file_def read_file_def get_def create_file_def add_file_def
      place_file_def the_file_def set_child_def File_init_def file_read_def file_write_def
      Let_def split: option.splits item.splits if_splits prod.splits)

theorem write_then_read_witness:
  "fst (fst (write_file demo ''f'' ''hello'' ''u'')) \<and>
   read_file (snd (write_file demo ''f'' ''hello'' ''u'')) ''f'' = (True, ''hello'') \<and>
   fst (fst (write_file demo ''new'' ''world'' ''u'')) \<and>
   read_file (snd (write_file demo ''new'' ''world'' ''u'')) ''new'' = (True, ''world'')"
proof -
  have a: "fst (fst (write_file demo ''f'' ''hello'' ''u''))"
    by (simp add: write_file_def get_def demo_root demo_dirs)
  have b: "fst (fst (write_file demo ''new'' ''world'' ''u''))"
    by (simp add: write_file_def create_file_def fs_defs demo_root demo_dirs)
  show ?thesis
    using a b write_then_read [OF a] write_then_read [OF b] by simp
qed

text \<open>
  Claim C8. If the current directory holds a file under the name \<open>n\<close> and that file's
  content is \<open>a\<close>, then \<open>append_file(n, b)\<close> reports success, \<open>read_file(n)\<close> afterwards
  returns \<open>(True, a + b)\<close>, and the file's \<open>size\<close> is the length of its new content.
\<close>

theorem append_then_read:
  "get s (current_directory s) n = Some (FileRef x) \<Longrightarrow> content (files s x) = a \<Longrightarrow>
   fst (fst (append_file s n b)) \<and>
   read_file (snd (append_file s n b)) n = (True, a @ b) \<and>
   content (files (snd (append_file s n b)) x) = a @ b \<and>
   size_f (files (snd (append_file s n b)) x) =
     length (content (files (snd (append_file s n b)) x))"
  by (auto simp: append_file_def read_file_def get_def file_read_def file_append_def Let_def)

theorem append_then_read_witness:
  "get demo (current_directory demo) ''f'' = Some (FileRef 3) \<and>
   content (files demo 3) = ''abc'' \<and>
   fst (fst (append_file demo ''f'' ''de'')) \<and>
   read_file (snd (append_file demo ''f'' ''de'')) ''f'' = (True, ''abcde'') \<and>
   size_f (files (snd (append_file demo ''f'' ''de'')) 3) = 5"
proof -
  have a: "get demo (current_directory demo) ''f'' = Some (FileRef 3)"
    by (simp add: get_def demo_root demo_dirs)
  have b: "content (files demo 3) = ''abc''"
    by (simp add: demo_files File_init_def)
  show ?thesis
    using a b append_then_read [OF a b, of "''de''"] by simp
qed

subsection \<open>The names \<open>.\<close> and \<open>..\<close>\<close>

text \<open>
  Claim C9, as stated, fails. After \<open>touch .\<close> the current directory holds a file
  named \<open>.\<close>, and \<open>create_directory(".")\<close> answers that the name already exists: the
  test for a taken name comes before the test for a dot name.
\<close>

theorem dot_names_counterexample:
  "reachable dotted \<and>
   get dotted (current_directory dotted) ''.'' = Some (FileRef 1) \<and>
   create_directory dotted ''.'' ''u'' =
     ((False, ''File or directory '' @ quoted ''.'' @ '' already exists''), dotted) \<and>
   ''File or directory '' @ quoted ''.'' @ '' already exists'' \<noteq> ''Invalid directory name''"
proof -
  have "reachable dotted"
    unfolding dotted_def by (intro reachable.by_create_file reachable.fresh)
  then show ?thesis
    by (simp add: dotted_def create_directory_def create_file_def fs_defs FileSystem_init_def
        Let_def)
qed

text \<open>
  Claim C9, amended. \<open>create_directory\<close> with the name \<open>.\<close> or \<open>..\<close> fails in every
  state and changes nothing. Where the current directory has a child of that name it
  answers that the name already exists; where it has none it answers
  \<open>Invalid directory name\<close>, and there \<open>create_file\<close> with the same name succeeds and
  puts a file of that name into the current directory, and \<open>write_file\<close> does exactly
  what \<open>create_file\<close> does.
\<close>

theorem dot_names:
  assumes "nm = ''.'' \<or> nm = ''..''"
  shows "fst (fst (create_directory s nm ow)) = False \<and>
         snd (create_directory s nm ow) = s \<and>
         (get s (current_directory s) nm \<noteq> None \<longrightarrow>
            create_directory s nm ow =
              ((False, ''File or directory '' @ quoted nm @ '' already exists''), s)) \<and>
         (get s (current_directory s) nm = None \<longrightarrow>
            create_directory s nm ow = ((False, ''Invalid directory name''), s) \<and>
            fst (fst (create_file s nm ow c)) = True \<and>
            (\<exists>a. get (snd (create_file s nm ow c))
                    (current_directory (snd (create_file s nm ow c))) nm = Some (FileRef a) \<and>
                  files (snd (create_file s nm ow c)) a = File_init nm c ow) \<and>
            write_file s nm c ow = create_file s nm ow c)"
  using assms
  by (auto simp: create_directory_def create_file_def write_file_def fs_defs domIff Let_def)

theorem dot_names_witness:
  "get (FileSystem_init ''u'') (current_directory (FileSystem_init ''u'')) ''..'' = None \<and>
   create_directory (FileSystem_init ''u'') ''..'' ''u'' =
     ((False, ''Invalid directory name''), FileSystem_init ''u'') \<and>
   fst (fst (create_file (FileSystem_init ''u'') ''..'' ''u'' ''x'')) = True \<and>
   get (snd (create_file (FileSystem_init ''u'') ''..'' ''u'' ''x'')) 0 ''..'' = Some (FileRef 1) \<and>
   write_file (FileSystem_init ''u'') ''..'' ''x'' ''u'' =
     create_file (FileSystem_init ''u'') ''..'' ''u'' ''x'' \<and>
   get dotted (current_directory dotted) ''.'' = Some (FileRef 1) \<and>
   create_directory dotted ''.'' ''u'' =
     ((False, ''File or directory '' @ quoted ''.'' @ '' already exists''), dotted)"
proof -
  have a: "get (FileSystem_init ''u'') (current_directory (FileSystem_init ''u'')) ''..'' = None"
    by (simp add: get_def FileSystem_init_def Directory_init_def)
  have b: "get (snd (create_file (FileSystem_init ''u'') ''..'' ''u'' ''x'')) 0 ''..'' = Some (FileRef 1)"
    by (simp add: create_file_def fs_defs FileSystem_init_def Let_def)
  have c: "get dotted (current_directory dotted) ''.'' = Some (FileRef 1)"
    by (simp add: dotted_def create_file_def fs_defs FileSystem_init_def Let_def)
  have 1: "create_directory (FileSystem_init ''u'') ''..'' ''u'' =
     ((False, ''Invalid directory name''), FileSystem_init ''u'') \<and>
   fst (fst (create_file (FileSystem_init ''u'') ''..'' ''u'' ''x'')) = True \<and>
   write_file (FileSystem_init ''u'') ''..'' ''x'' ''u'' =
     create_file (FileSystem_init ''u'') ''..'' ''u'' ''x''"
    using a dot_names [of "''..''" "FileSystem_init ''u''" "''u''" "''x''"] by simp
  have 2: "create_directory dotted ''.'' ''u'' =
     ((False, ''File or directory '' @ quoted ''.'' @ '' already exists''), dotted)"
    using c dot_names [of "''.''" dotted "''u''" "''x''"] by simp
  from a b c 1 2 show ?thesis by blast
qed

subsection \<open>Deleting a directory\<close>

lemma reachable_mkdir: "reachable (snd (create_directory (FileSystem_init ''u'') ''e'' ''u''))"
  by (intro reachable.by_create_directory reachable.fresh)

text \<open>
  Claim C6. In a state that a session can reach, let the current directory hold the
  directory \<open>d\<close> under the key \<open>n\<close>. Then \<open>n\<close> is the name of \<open>d\<close>. If \<open>d\<close> has a
  child, \<open>delete(n)\<close> answers that the directory is not empty and changes nothing, so
  \<open>d\<close> keeps its children. If \<open>d\<close> has no child, \<open>delete(n)\<close> succeeds and \<open>d\<close> is no
  longer linked to the root.
\<close>

theorem delete_directory_rule:
  assumes "reachable s" and "get s (current_directory s) n = Some (DirRef d)"
  shows "name (dirs s d) = n \<and>
     (dom (children (dirs s d)) \<noteq> {} \<longrightarrow>
        delete s n = ((False, ''Directory '' @ quoted n @ '' is not empty''), s)) \<and>
     (dom (children (dirs s d)) = {} \<longrightarrow>
        fst (fst (delete s n)) = True \<and> \<not> linked (snd (delete s n)) (DirRef d))"
  using delete_directory[OF reachable_well_formed[OF assms(1)] assms(2)] by blast

theorem delete_directory_rule_witness:
  "delete demo ''d'' = ((False, ''Directory 'd' is not empty''), demo) \<and>
   children (dirs demo 1) ''g'' = Some (FileRef 2) \<and>
   fst (fst (delete (snd (create_directory (FileSystem_init ''u'') ''e'' ''u'')) ''e'')) = True \<and>
   \<not> linked (snd (delete (snd (create_directory (FileSystem_init ''u'') ''e'' ''u'')) ''e''))
       (DirRef 1)"
proof -
  have a: "get demo (current_directory demo) ''d'' = Some (DirRef 1)"
    by (simp add: get_def demo_root demo_dirs)
  have b: "dom (children (dirs demo 1)) \<noteq> {}" by (simp add: demo_dirs)
  let ?s = "snd (create_directory (FileSystem_init ''u'') ''e'' ''u'')"
  have c: "get ?s (current_directory ?s) ''e'' = Some (DirRef 1)"
    by (simp add: create_directory_def fs_defs FileSystem_init_def Let_def)
  have d: "dom (children (dirs ?s 1)) = {}"
    by (simp add: create_directory_def fs_defs FileSystem_init_def Let_def)
  show ?thesis
    using delete_directory_rule[OF reachable_demo a] b
      delete_directory_rule[OF reachable_mkdir c] d
    by (simp add: demo_dirs)
qed

subsection \<open>The tree\<close>

text \<open>
  Claim C1. The claim fails for \<open>mkdir d; mv d d\<close>: \<open>move\<close> reports success, takes
  \<open>d\<close> out of the root and puts it into its own \<open>children\<close>, with itself as parent. The
  directory is then an entry that is reached from itself, and the root has lost it.
  What does hold in every reachable state is in \<open>reachable_well_formed\<close> and
  \<open>root_linked_acyclic\<close>: a held directory names its holder as parent, the root has no
  parent, and no directory that can be reached from the root lies on a cycle.
\<close>

theorem move_into_itself:
  "reachable lost \<and>
   fst (move (snd (create_directory (FileSystem_init ''u'') ''d'' ''u'')) ''d'' ''d'') =
     (True, ''Moved '' @ quoted ''d'' @ '' to '' @ quoted ''d'') \<and>
   children (dirs lost 1) ''d'' = Some (DirRef 1) \<and>
   parent (dirs lost 1) = Some 1 \<and>
   (1, 1) \<in> dir_child lost \<and>
   children (dirs lost (root lost)) = Map.empty"
proof -
  have "reachable lost"
    unfolding lost_def
    by (intro reachable.by_move reachable.by_create_directory reachable.fresh)
  then show ?thesis
    by (auto simp: lost_def move_def create_directory_def fs_defs FileSystem_init_def Let_def
        dir_child_def)
qed

subsection \<open>Changing directory\<close>

text \<open>
  Claim C3, as stated, fails: in a fresh session, whose current directory is the root,
  \<open>change_directory("..")\<close> returns the flag \<open>False\<close>, not success.
\<close>

theorem cd_parent_at_root_counterexample:
  "current_directory (FileSystem_init ''u'') = root (FileSystem_init ''u'') \<and>
   change_directory 1000 (FileSystem_init ''u'') ''..'' =
     (Inr (False, ''Already at root directory''), FileSystem_init ''u'')"
  by (simp add: change_directory_def FileSystem_init_def Directory_init_def)

text \<open>
  Claim C3, amended. In every state a session can reach with the root as current
  directory, \<open>change_directory("..")\<close> leaves the state as it is and returns the
  flag \<open>False\<close> with the message \<open>Already at root directory\<close>, which is not the
  message of a directory that was not found, whatever the name.
\<close>

theorem cd_parent_at_root:
  assumes "reachable s" and "current_directory s = root s"
  shows "change_directory limit s ''..'' = (Inr (False, ''Already at root directory''), s) \<and>
         ''Already at root directory'' \<noteq> ''Directory '' @ quoted n @ '' not found''"
  using wf_root[OF reachable_well_formed[OF assms(1)]] assms(2)
  by (simp add: change_directory_def)

theorem cd_parent_at_root_witness:
  "current_directory demo = root demo \<and>
   change_directory 1000 demo ''..'' = (Inr (False, ''Already at root directory''), demo)"
  using cd_parent_at_root[OF reachable_demo, of 1000 "''..''"] by (simp add: demo_root)

text \<open>
  Claim C4, as stated, fails. \<open>change_directory\<close> into the file \<open>f\<close> returns the
  very result it returns for a name that no entry has, \<open>Directory 'f' not found\<close>; and
  where the file is named \<open>.\<close>, \<open>change_directory(".")\<close> succeeds.
\<close>

theorem kind_safety_counterexample:
  "get demo (current_directory demo) ''f'' = Some (FileRef 3) \<and>
   get (FileSystem_init ''u'') (current_directory (FileSystem_init ''u'')) ''f'' = None \<and>
   fst (change_directory 1000 demo ''f'') = Inr (False, ''Directory 'f' not found'') \<and>
   fst (change_directory 1000 (FileSystem_init ''u'') ''f'') =
     Inr (False, ''Directory 'f' not found'') \<and>
   get dotted (current_directory dotted) ''.'' = Some (FileRef 1) \<and>
   fst (change_directory 1000 dotted ''.'') = Inr (True, ''Current directory: /'')"
  by (simp add: get_def demo_root demo_dirs change_directory_def FileSystem_init_def
      Directory_init_def dotted_def create_file_def add_file_def the_file_def place_file_def
      set_child_def File_init_def get_current_path_def get_path_no_parent)

text \<open>
  Claim C4, amended. \<open>read_file\<close> on a name under which the current directory holds
  a directory fails with the message \<open>'n' is a directory, not a file\<close>, which differs
  from the message for a missing file. For a name other than \<open>.\<close> and \<open>..\<close>
  that does not begin with a slash, \<open>change_directory\<close> on a file fails, leaves the
  state unchanged and answers \<open>Directory 'n' not found\<close>, exactly as it does where
  the name is missing.
\<close>

theorem kind_safety:
  "(get s (current_directory s) n = Some (DirRef d) \<longrightarrow>
      read_file s n = (False, quoted n @ '' is a directory, not a file'') \<and>
      quoted n @ '' is a directory, not a file'' \<noteq> ''File '' @ quoted n @ '' not found'') \<and>
   (n \<noteq> ''..'' \<and> n \<noteq> ''.'' \<and> take 1 n \<noteq> ''/'' \<longrightarrow>
      (get s (current_directory s) n = Some (FileRef a) \<longrightarrow>
         change_directory limit s n = (Inr (False, ''Directory '' @ quoted n @ '' not found''), s)) \<and>
      (get s (current_directory s) n = None \<longrightarrow>
         change_directory limit s n = (Inr (False, ''Directory '' @ quoted n @ '' not found''), s)))"
  by (auto simp: read_file_def change_directory_def)

theorem kind_safety_witness:
  "get demo (current_directory demo) ''d'' = Some (DirRef 1) \<and>
   read_file demo ''d'' = (False, '''d' is a directory, not a file'') \<and>
   get demo (current_directory demo) ''f'' = Some (FileRef 3) \<and>
   change_directory 1000 demo ''f'' = (Inr (False, ''Directory 'f' not found''), demo) \<and>
   get demo (current_directory demo) ''x'' = None \<and>
   change_directory 1000 demo ''x'' = (Inr (False, ''Directory 'x' not found''), demo)"
proof -
  have a: "get demo (current_directory demo) ''d'' = Some (DirRef 1)"
    "get demo (current_directory demo) ''f'' = Some (FileRef 3)"
    "get demo (current_directory demo) ''x'' = None"
    by (simp_all add: get_def demo_root demo_dirs)
  show ?thesis
    using a kind_safety[of demo "''d''" 1] kind_safety[of demo "''f''" _ 3 1000]
      kind_safety[of demo "''x''" _ _ 1000]
    by simp
qed

subsection \<open>Absolute paths\<close>

lemma walk_append:
  "walk s it (xs @ ys) = (case walk s it xs of None \<Rightarrow> None | Some it' \<Rightarrow> walk s it' ys)"
  by (induction xs arbitrary: it) (auto split: item.splits option.splits)

lemma last_dropWhile: "dropWhile P xs \<noteq> [] \<Longrightarrow> last (dropWhile P xs) = last xs"
  by (induction xs) (auto split: if_splits)

lemma strip_no_trailing:
  assumes "path = [] \<or> last path \<noteq> CHR ''/''"
  shows "strip ''/'' path = dropWhile (\<lambda>c. c = CHR ''/'') path"
proof (cases "dropWhile (\<lambda>c. c = CHR ''/'') path = []")
  case True
  have "strip ''/'' path =
      rev (dropWhile (\<lambda>c. c = CHR ''/'') (rev (dropWhile (\<lambda>c. c = CHR ''/'') path)))"
    by (simp add: strip_def)
  also have "\<dots> = dropWhile (\<lambda>c. c = CHR ''/'') path" unfolding True by simp
  finally show ?thesis .
next
  case False
  then have "last (dropWhile (\<lambda>c. c = CHR ''/'') path) = last path" by (rule last_dropWhile)
  moreover have "path \<noteq> []" using False by auto
  ultimately have "last (dropWhile (\<lambda>c. c = CHR ''/'') path) \<noteq> CHR ''/''" using assms by simp
  then have "hd (rev (dropWhile (\<lambda>c. c = CHR ''/'') path)) \<noteq> CHR ''/''"
    using False by (simp add: hd_rev)
  then have "dropWhile (\<lambda>c. c = CHR ''/'') (rev (dropWhile (\<lambda>c. c = CHR ''/'') path)) =
      rev (dropWhile (\<lambda>c. c = CHR ''/'') path)"
    using False by (cases "rev (dropWhile (\<lambda>c. c = CHR ''/'') path)") auto
  then show ?thesis by (simp add: strip_def)
qed

lemma change_directory_frame:
  "files (snd (change_directory limit s path)) = files s \<and>
   dirs (snd (change_directory limit s path)) = dirs s \<and>
   next_addr (snd (change_directory limit s path)) = next_addr s \<and>
   root (snd (change_directory limit s path)) = root s"
  by (simp add: snd_change_directory split: option.splits item.splits)

lemma split_no_sep: "sep \<notin> set x \<Longrightarrow> split sep x = [x]"
  by (induction x) auto

lemma split_append_sep: "sep \<notin> set x \<Longrightarrow> split sep (x @ sep # rest) = x # split sep rest"
  by (induction x) auto

lemma split_join:
  "segs \<noteq> [] \<Longrightarrow> (\<And>x. x \<in> set segs \<Longrightarrow> sep \<notin> set x) \<Longrightarrow> split sep (join sep segs) = segs"
proof (induction sep segs rule: join.induct)
  case (1 sep)
  then show ?case by simp
next
  case (2 sep x)
  then show ?case by (simp add: split_no_sep)
next
  case (3 sep x y zs)
  have "split sep (join sep (y # zs)) = y # zs"
    using 3 by simp
  moreover have "sep \<notin> set x" using 3 by simp
  ultimately show ?case by (simp add: split_append_sep)
qed

lemma join_last:
  "segs \<noteq> [] \<Longrightarrow> last segs \<noteq> [] \<Longrightarrow>
   join sep segs \<noteq> [] \<and> last (join sep segs) = last (last segs)"
  by (induction sep segs rule: join.induct) simp_all

lemma join_hd: "segs \<noteq> [] \<Longrightarrow> hd segs \<noteq> [] \<Longrightarrow> hd (join sep segs) = hd (hd segs)"
  by (cases "(sep, segs)" rule: join.cases) simp_all

lemma strip_slashes:
  assumes "core \<noteq> []" and "hd core \<noteq> c" and "last core \<noteq> c"
  shows "strip [c] (replicate m c @ core @ replicate k c) = core"
proof -
  have r: "dropWhile (\<lambda>x. x \<in> set [c]) (replicate j c @ ys) = dropWhile (\<lambda>x. x \<in> set [c]) ys"
    for j ys by (induction j) simp_all
  have "dropWhile (\<lambda>x. x \<in> set [c]) (core @ replicate k c) = core @ replicate k c"
    using assms(1,2) by (cases core) simp_all
  then have 1: "dropWhile (\<lambda>x. x \<in> set [c]) (replicate m c @ core @ replicate k c) =
      core @ replicate k c"
    by (simp only: r)
  have 2: "rev (core @ replicate k c) = replicate k c @ rev core" by simp
  have "hd (rev core) \<noteq> c" using assms(1,3) by (simp add: hd_rev)
  then have "dropWhile (\<lambda>x. x \<in> set [c]) (rev core) = rev core"
    using assms(1) by (cases "rev core") simp_all
  then have 3: "dropWhile (\<lambda>x. x \<in> set [c]) (replicate k c @ rev core) = rev core"
    by (simp only: r)
  show ?thesis unfolding strip_def 1 2 3 by simp
qed

lemma strip_only_slashes: "strip [c] (replicate m c) = []"
  by (simp add: strip_def)

lemma navigate_segments:
  assumes "segs \<noteq> []" and "hd segs \<noteq> []" and "last segs \<noteq> []"
    and "\<And>x. x \<in> set segs \<Longrightarrow> CHR ''/'' \<notin> set x"
  shows "strip ''/'' (replicate (Suc m) CHR ''/'' @ join CHR ''/'' segs @ replicate k CHR ''/'') =
           join CHR ''/'' segs"
    and "split CHR ''/'' (join CHR ''/'' segs) = segs"
    and "navigate_absolute_path s
           (replicate (Suc m) CHR ''/'' @ join CHR ''/'' segs @ replicate k CHR ''/'') =
         walk s (DirRef (root s)) segs"
proof -
  let ?core = "join CHR ''/'' segs"
  have ne: "?core \<noteq> []" and l: "last ?core = last (last segs)"
    using join_last[OF assms(1,3)] by simp_all
  have h: "hd ?core = hd (hd segs)" using assms(1,2) by (rule join_hd)
  have "hd segs \<in> set segs" "last segs \<in> set segs" using assms(1) by simp_all
  then have "CHR ''/'' \<notin> set (hd segs)" "CHR ''/'' \<notin> set (last segs)"
    using assms(4) by blast+
  moreover have "hd (hd segs) \<in> set (hd segs)" "last (last segs) \<in> set (last segs)"
    using assms(2,3) by simp_all
  ultimately have "hd ?core \<noteq> CHR ''/''" "last ?core \<noteq> CHR ''/''"
    using h l by metis+
  then show 1: "strip ''/'' (replicate (Suc m) CHR ''/'' @ ?core @ replicate k CHR ''/'') = ?core"
    using strip_slashes[OF ne, of "CHR ''/''" "Suc m" k] by simp
  show 2: "split CHR ''/'' ?core = segs" using assms(1,4) by (rule split_join)
  have "length (replicate (Suc m) CHR ''/'' @ ?core @ replicate k CHR ''/'') \<noteq> length ''/''"
    using ne by (cases ?core) simp_all
  then have 3: "replicate (Suc m) CHR ''/'' @ ?core @ replicate k CHR ''/'' \<noteq> ''/''"
    by metis
  show "navigate_absolute_path s
           (replicate (Suc m) CHR ''/'' @ ?core @ replicate k CHR ''/'') =
         walk s (DirRef (root s)) segs"
    by (simp only: navigate_absolute_path_def 3 if_False 1 2)
qed

text \<open>
  Claim C5, as stated, fails: \<open>/d/\<close> resolves to the directory \<open>d\<close>, because
  \<open>strip\<close> removes the trailing slash as well; stripping the leading slashes only
  leaves the empty segment after \<open>d\<close>, which is not found.
\<close>

theorem absolute_path_counterexample:
  "navigate_absolute_path demo ''/d/'' = Some (DirRef 1) \<and> resolve_spec demo ''/d/'' = None"
  by (simp add: navigate_absolute_path_def resolve_spec_def strip_def get_def demo_root demo_dirs)

text \<open>
  Claim C5, amended. Take segments, at least one, none of them holding a slash, the first
  and the last not empty, and write them as a path: one or more slashes, the segments
  joined by \<open>/\<close>, and any number of slashes after them. \<open>strip\<close> takes the slashes off
  both ends, \<open>split\<close> gives the segments back, and resolution is the walk from the root
  along these segments. A path of two or more slashes and nothing else is a lookup of the
  empty name in the root, and \<open>/\<close> is the root. For a path that begins with a slash and
  does not end in one, resolution agrees with the specification's wording. A segment looked
  up inside a file, or missing from its directory, makes the walk fail; where resolution
  fails or ends at a file, \<open>change_directory\<close> answers \<open>Directory 'path' not found\<close>
  and changes nothing; and \<open>change_directory\<close> never changes the stores, the allocation
  counter or the root, whether it returns or raises.
\<close>

theorem absolute_path_resolution:
  assumes "take 1 path = ''/''"
  shows "(segs \<noteq> [] \<and> hd segs \<noteq> [] \<and> last segs \<noteq> [] \<and> (\<forall>x\<in>set segs. CHR ''/'' \<notin> set x) \<longrightarrow>
        strip ''/'' (replicate (Suc m) CHR ''/'' @ join CHR ''/'' segs @ replicate k CHR ''/'') =
          join CHR ''/'' segs \<and>
        split CHR ''/'' (join CHR ''/'' segs) = segs \<and>
        navigate_absolute_path s
          (replicate (Suc m) CHR ''/'' @ join CHR ''/'' segs @ replicate k CHR ''/'') =
          walk s (DirRef (root s)) segs) \<and>
     navigate_absolute_path s (replicate (Suc (Suc m)) CHR ''/'') = get s (root s) [] \<and>
     navigate_absolute_path s ''/'' = Some (DirRef (root s)) \<and>
     (last path \<noteq> CHR ''/'' \<longrightarrow> navigate_absolute_path s path = resolve_spec s path) \<and>
     (walk s it xs = Some (FileRef a) \<longrightarrow> walk s it (xs @ seg # ys) = None) \<and>
     (walk s it xs = Some (DirRef d) \<and> get s d seg = None \<longrightarrow>
        walk s it (xs @ seg # ys) = None) \<and>
     (navigate_absolute_path s path = None \<or> navigate_absolute_path s path = Some (FileRef a) \<longrightarrow>
        change_directory limit s path =
          (Inr (False, ''Directory '' @ quoted path @ '' not found''), s)) \<and>
     files (snd (change_directory limit s path)) = files s \<and>
     dirs (snd (change_directory limit s path)) = dirs s \<and>
     next_addr (snd (change_directory limit s path)) = next_addr s \<and>
     root (snd (change_directory limit s path)) = root s"
proof -
  have 0: "segs \<noteq> [] \<and> hd segs \<noteq> [] \<and> last segs \<noteq> [] \<and> (\<forall>x\<in>set segs. CHR ''/'' \<notin> set x) \<longrightarrow>
        strip ''/'' (replicate (Suc m) CHR ''/'' @ join CHR ''/'' segs @ replicate k CHR ''/'') =
          join CHR ''/'' segs \<and>
        split CHR ''/'' (join CHR ''/'' segs) = segs \<and>
        navigate_absolute_path s
          (replicate (Suc m) CHR ''/'' @ join CHR ''/'' segs @ replicate k CHR ''/'') =
          walk s (DirRef (root s)) segs"
    using navigate_segments(1)[where segs = segs and m = m and k = k]
      navigate_segments(2)[where segs = segs]
      navigate_segments(3)[where segs = segs and m = m and k = k and s = s]
    by blast
  have "strip ''/'' (replicate (Suc (Suc m)) CHR ''/'') = []"
    using strip_only_slashes[of "CHR ''/''" "Suc (Suc m)"] by simp
  then have 7: "navigate_absolute_path s (replicate (Suc (Suc m)) CHR ''/'') = get s (root s) []"
    unfolding navigate_absolute_path_def by (simp split: option.splits)
  have 8: "navigate_absolute_path s ''/'' = Some (DirRef (root s))"
    by (simp add: navigate_absolute_path_def)
  have 1: "last path \<noteq> CHR ''/'' \<longrightarrow> navigate_absolute_path s path = resolve_spec s path"
    using strip_no_trailing[of path]
    by (auto simp: navigate_absolute_path_def resolve_spec_def)
  have 3: "walk s it xs = Some (FileRef a) \<longrightarrow> walk s it (xs @ seg # ys) = None"
    by (simp add: walk_append)
  have 4: "walk s it xs = Some (DirRef d) \<and> get s d seg = None \<longrightarrow>
        walk s it (xs @ seg # ys) = None"
    by (simp add: walk_append)
  have ne: "path \<noteq> ''..''" "path \<noteq> ''.''" using assms by auto
  have 5: "navigate_absolute_path s path = None \<or> navigate_absolute_path s path = Some (FileRef a) \<longrightarrow>
        change_directory limit s path =
          (Inr (False, ''Directory '' @ quoted path @ '' not found''), s)"
    using assms ne by (auto simp: change_directory_def navigate_absolute_path_def)
  note 6 = change_directory_frame[of limit s path]
  from 0 7 8 1 3 4 5 6 show ?thesis by blast
qed

theorem absolute_path_resolution_witness:
  "navigate_absolute_path demo ''//d/g/'' = Some (FileRef 2) \<and>
   strip ''/'' ''//d/g/'' = ''d/g'' \<and>
   split CHR ''/'' ''d/g'' = [''d'', ''g''] \<and>
   navigate_absolute_path demo ''/d/g'' = resolve_spec demo ''/d/g'' \<and>
   navigate_absolute_path demo ''/d/g'' = Some (FileRef 2) \<and>
   walk demo (DirRef 0) ([''d'', ''g''] @ ''x'' # []) = None \<and>
   walk demo (DirRef 0) ([''d''] @ ''x'' # [''y'']) = None \<and>
   change_directory 1000 demo ''/d/g'' = (Inr (False, ''Directory '/d/g' not found''), demo) \<and>
   change_directory 1000 demo ''/x'' = (Inr (False, ''Directory '/x' not found''), demo)"
proof -
  have a: "walk demo (DirRef 0) [''d'', ''g''] = Some (FileRef 2)"
    and a': "walk demo (DirRef 0) [''d''] = Some (DirRef 1) \<and> get demo 1 ''x'' = None"
    by (simp_all add: get_def demo_dirs)
  have b: "navigate_absolute_path demo ''/d/g'' = None \<or>
           navigate_absolute_path demo ''/d/g'' = Some (FileRef 2)"
    and b': "navigate_absolute_path demo ''/x'' = None \<or>
           navigate_absolute_path demo ''/x'' = Some (FileRef 2)"
    and b2: "navigate_absolute_path demo ''/d/g'' = Some (FileRef 2)"
    by (simp_all add: navigate_absolute_path_def strip_def get_def demo_root demo_dirs)
  have p: "take 1 ''/d/g'' = ''/''" "take 1 ''/x'' = ''/''" "last ''/d/g'' \<noteq> CHR ''/''"
    by simp_all
  have sg: "[''d'', ''g''] \<noteq> [] \<and> hd [''d'', ''g''] \<noteq> [] \<and> last [''d'', ''g''] \<noteq> [] \<and>
      (\<forall>x\<in>set [''d'', ''g'']. CHR ''/'' \<notin> set x)"
    by simp
  have j: "replicate (Suc 1) CHR ''/'' @ join CHR ''/'' [''d'', ''g''] @ replicate 1 CHR ''/'' =
      ''//d/g/''" "join CHR ''/'' [''d'', ''g''] = ''d/g''"
    by (simp_all add: numeral_2_eq_2)
  note T = absolute_path_resolution[OF p(1),
      of "[''d'', ''g'']" 1 1 demo "DirRef 0" "[''d'', ''g'']" 2 "''x''" "[]" 1 1000]
  note U = absolute_path_resolution[OF p(2),
      of "[''d'', ''g'']" 1 1 demo "DirRef 0" "[''d'']" 2 "''x''" "[''y'']" 1 1000]
  have 0: "strip ''/'' (replicate (Suc 1) CHR ''/'' @ join CHR ''/'' [''d'', ''g''] @
              replicate 1 CHR ''/'') = join CHR ''/'' [''d'', ''g''] \<and>
        split CHR ''/'' (join CHR ''/'' [''d'', ''g'']) = [''d'', ''g''] \<and>
        navigate_absolute_path demo
          (replicate (Suc 1) CHR ''/'' @ join CHR ''/'' [''d'', ''g''] @ replicate 1 CHR ''/'') =
          walk demo (DirRef (root demo)) [''d'', ''g'']"
    using T sg by blast
  have 00: "navigate_absolute_path demo ''//d/g/'' = Some (FileRef 2)"
    "strip ''/'' ''//d/g/'' = ''d/g''" "split CHR ''/'' ''d/g'' = [''d'', ''g'']"
    using 0 a unfolding j by (simp_all add: demo_root)
  have 1: "navigate_absolute_path demo ''/d/g'' = resolve_spec demo ''/d/g''"
    using T p(3) by blast
  have 3: "walk demo (DirRef 0) ([''d'', ''g''] @ ''x'' # []) = None"
    using T a by blast
  have 4: "walk demo (DirRef 0) ([''d''] @ ''x'' # [''y'']) = None"
    using U a' by blast
  have 5: "change_directory 1000 demo ''/d/g'' =
      (Inr (False, ''Directory '' @ quoted ''/d/g'' @ '' not found''), demo)"
    using T b by blast
  have 6: "change_directory 1000 demo ''/x'' =
      (Inr (False, ''Directory '' @ quoted ''/x'' @ '' not found''), demo)"
    using U b' by blast
  from 5 6 have 56: "change_directory 1000 demo ''/d/g'' = (Inr (False, ''Directory '/d/g' not found''), demo)"
    "change_directory 1000 demo ''/x'' = (Inr (False, ''Directory '/x' not found''), demo)"
    by simp_all
  from 00 1 b2 3 4 56 show ?thesis by blast
qed

subsection \<open>The \<open>logged_in\<close> flag\<close>

text \<open>
  Claim C10. \<open>create_user\<close> stores the new user with \<open>logged_in\<close> set and leaves
  \<open>current_user\<close> alone; after \<open>login(a); login(b)\<close> the flag of \<open>a\<close> is still set
  while \<open>current_user\<close> is \<open>b\<close>; \<open>create_user\<close> and \<open>login\<close> never clear a flag;
  \<open>logout\<close> clears the flag of the current user and leaves every other flag as it was.
\<close>

theorem logged_in_flag:
  "(un \<notin> dom (users n) \<longrightarrow>
      (\<exists>a. users (snd (create_user n un ln)) un = Some a \<and>
           logged_in (user_store (snd (create_user n un ln)) a)) \<and>
      current_user (snd (create_user n un ln)) = current_user n) \<and>
   (users n ua = Some a \<and> users n ub = Some b \<longrightarrow>
      logged_in (user_store (snd (login (snd (login n ua)) ub)) a) \<and>
      current_user (snd (login (snd (login n ua)) ub)) = Some b) \<and>
   (logged_in (user_store n x) \<longrightarrow>
      logged_in (user_store (snd (create_user n un ln)) x) \<and>
      logged_in (user_store (snd (login n un)) x)) \<and>
   (current_user n \<noteq> Some x \<longrightarrow>
      logged_in (user_store (snd (logout n)) x) = logged_in (user_store n x)) \<and>
   (current_user n = Some x \<longrightarrow> \<not> logged_in (user_store (snd (logout n)) x))"
  by (auto simp: create_user_def login_def logout_def Let_def User_init_def
      split: option.splits)

lemma demo_net_users: "users demo_net ''alice'' = Some 0" "users demo_net ''bob'' = Some 1"
  "current_user demo_net = None" "logged_in (user_store demo_net 0)"
  by (simp_all add: demo_net_def create_user_def NetworkFileSystem_init_def User_init_def)

theorem logged_in_flag_witness:
  "current_user demo_net = None \<and> logged_in (user_store demo_net 0) \<and>
   logged_in (user_store (snd (login (snd (login demo_net ''alice'')) ''bob'')) 0) \<and>
   current_user (snd (login (snd (login demo_net ''alice'')) ''bob'')) = Some 1 \<and>
   \<not> logged_in (user_store (snd (logout (snd (login (snd (login demo_net ''alice'')) ''bob'')))) 1) \<and>
   logged_in (user_store (snd (logout (snd (login (snd (login demo_net ''alice'')) ''bob'')))) 0)"
proof -
  let ?n = "snd (login (snd (login demo_net ''alice'')) ''bob'')"
  have c: "current_user ?n = Some 1"
    by (simp add: login_def demo_net_users Let_def)
  show ?thesis
    using demo_net_users c
      logged_in_flag[of "''carol''" demo_net "''C''" "''alice''" 0 "''bob''" 1 0]
      logged_in_flag[of "''carol''" ?n "''C''" "''alice''" 0 "''bob''" 1 1]
      logged_in_flag[of "''carol''" ?n "''C''" "''alice''" 0 "''bob''" 1 0]
    by simp
qed

end
